theory Spec2Isabelle
  imports Main "HOL-Library.Multiset"
begin

section \<open>Shared values\<close>

text \<open>
  Every failure of the modelled TypeScript is a thrown \<^verbatim>\<open>new Error(message)\<close>; the
  message is kept, so that each kind of failure is told apart by its text.
  Timestamps are the readings of \<^verbatim>\<open>Date.now()\<close>, passed in by the caller of each
  operation. Opaque JSON payloads are key-value lists.
\<close>

datatype js_error = Error string

type_synonym payload = "(string \<times> string) list"

definition digit_char :: "nat \<Rightarrow> char" where
  "digit_char d = ''0123456789'' ! d"

function decimal :: "nat \<Rightarrow> string" where
  "decimal n = (if 10 \<le> n then decimal (n div 10) @ [digit_char (n mod 10)] else [digit_char n])"
  by pat_completeness auto
termination
  by (relation "measure id") auto

declare decimal.simps [simp del]

text \<open>\<^verbatim>\<open>x || fallback\<close> on an optional string: the empty string is falsy.\<close>

definition truthy_str :: "string option \<Rightarrow> string option" where
  "truthy_str s = (case s of None \<Rightarrow> None | Some v \<Rightarrow> if v = [] then None else Some v)"

section \<open>Task (core/task/task.ts)\<close>

datatype task_status = Pending | Queued | Running | Completed | Failed | Cancelled

datatype task_priority = Low | Normal | High | Critical

fun status_str :: "task_status \<Rightarrow> string" where
  "status_str Pending = ''pending''"
| "status_str Queued = ''queued''"
| "status_str Running = ''running''"
| "status_str Completed = ''completed''"
| "status_str Failed = ''failed''"
| "status_str Cancelled = ''cancelled''"

text \<open>
  \<^verbatim>\<open>TaskConfig\<close>. The counters \<^verbatim>\<open>retries\<close> and \<^verbatim>\<open>maxRetries\<close> are natural numbers,
  as \<^verbatim>\<open>TaskSchema\<close> declares them (\<^verbatim>\<open>z.number().int().nonnegative()\<close>).
\<close>

record task_config =
  cfg_id :: "string option"
  cfg_runId :: string
  cfg_type :: string
  cfg_input :: payload
  cfg_parentId :: "string option"
  cfg_agentId :: "string option"
  cfg_priority :: "task_priority option"
  cfg_maxRetries :: "nat option"
  cfg_timeoutMs :: "nat option"

record task =
  task_id :: string
  runId :: string
  task_type :: string
  parentId :: "string option"
  priority :: task_priority
  maxRetries :: nat
  timeoutMs :: "nat option"
  "input" :: payload
  status :: task_status
  agentId :: "string option"
  "output" :: "payload option"
  error :: "string option"
  retries :: nat
  children :: "string list"
  createdAt :: int
  startedAt :: "int option"
  completedAt :: "int option"

text \<open>
  The constructor. \<open>fresh\<close> is the value \<^verbatim>\<open>uuidv4()\<close> would return and \<open>now\<close> the
  clock reading.
\<close>

definition new_task :: "task_config \<Rightarrow> string \<Rightarrow> int \<Rightarrow> task" where
  "new_task config fresh now =
     \<lparr> task_id = (case truthy_str (cfg_id config) of Some i \<Rightarrow> i | None \<Rightarrow> fresh),
       runId = cfg_runId config,
       task_type = cfg_type config,
       parentId = truthy_str (cfg_parentId config),
       priority = (case cfg_priority config of Some p \<Rightarrow> p | None \<Rightarrow> Normal),
       maxRetries = (case cfg_maxRetries config of Some m \<Rightarrow> m | None \<Rightarrow> 3),
       timeoutMs = (case cfg_timeoutMs config of None \<Rightarrow> None
                    | Some ms \<Rightarrow> if ms = 0 then None else Some ms),
       input = cfg_input config,
       status = Pending,
       agentId = truthy_str (cfg_agentId config),
       output = None,
       error = None,
       retries = 0,
       children = [],
       createdAt = now,
       startedAt = None,
       completedAt = None \<rparr>"

definition isTerminal :: "task \<Rightarrow> bool" where
  "isTerminal t = (status t \<in> {Completed, Failed, Cancelled})"

definition canRetry :: "task \<Rightarrow> bool" where
  "canRetry t = (retries t < maxRetries t \<and> status t = Failed)"

text \<open>
  The transition methods. Each returns the thrown error, if any, together with the task
  as it is when the method returns or throws.
\<close>

definition queue :: "task \<Rightarrow> js_error option \<times> task" where
  "queue t =
     (if status t \<noteq> Pending
      then (Some (Error (''Cannot queue task in status: '' @ status_str (status t))), t)
      else (None, t\<lparr>status := Queued\<rparr>))"

definition start :: "task \<Rightarrow> string option \<Rightarrow> int \<Rightarrow> js_error option \<times> task" where
  "start t agent now =
     (if status t \<notin> {Pending, Queued}
      then (Some (Error (''Cannot start task in status: '' @ status_str (status t))), t)
      else (None,
            (let t1 = t\<lparr>status := Running, startedAt := Some now\<rparr>
             in case truthy_str agent of Some a \<Rightarrow> t1\<lparr>agentId := Some a\<rparr> | None \<Rightarrow> t1)))"

definition complete :: "task \<Rightarrow> payload \<Rightarrow> int \<Rightarrow> js_error option \<times> task" where
  "complete t out now =
     (if status t \<noteq> Running
      then (Some (Error (''Cannot complete task in status: '' @ status_str (status t))), t)
      else (None, t\<lparr>status := Completed, output := Some out, completedAt := Some now\<rparr>))"

definition fail :: "task \<Rightarrow> string \<Rightarrow> int \<Rightarrow> js_error option \<times> task" where
  "fail t err now =
     (if status t \<noteq> Running
      then (Some (Error (''Cannot fail task in status: '' @ status_str (status t))), t)
      else (None, t\<lparr>status := Failed, error := Some err, completedAt := Some now\<rparr>))"

definition cancel :: "task \<Rightarrow> int \<Rightarrow> js_error option \<times> task" where
  "cancel t now =
     (if isTerminal t
      then (Some (Error (''Cannot cancel task in status: '' @ status_str (status t))), t)
      else (None, t\<lparr>status := Cancelled, completedAt := Some now\<rparr>))"

definition retry :: "task \<Rightarrow> js_error option \<times> task" where
  "retry t =
     (if \<not> canRetry t
      then (Some (Error (''Cannot retry task: status='' @ status_str (status t) @
                         '', retries='' @ decimal (retries t) @ ''/'' @
                         decimal (maxRetries t))), t)
      else (None, t\<lparr>retries := retries t + 1, status := Pending, error := None,
                     startedAt := None, completedAt := None\<rparr>))"

text \<open>A call of one transition method, and a sequence of calls on the same task object
  (a caller that catches the error of an illegal call goes on with the task as it is).\<close>

datatype task_op =
    Queue
  | Start "string option" int
  | Complete payload int
  | Fail string int
  | Cancel int
  | Retry

fun apply_op :: "task \<Rightarrow> task_op \<Rightarrow> js_error option \<times> task" where
  "apply_op t Queue = queue t"
| "apply_op t (Start agent now) = start t agent now"
| "apply_op t (Complete out now) = complete t out now"
| "apply_op t (Fail err now) = fail t err now"
| "apply_op t (Cancel now) = cancel t now"
| "apply_op t Retry = retry t"

fun run_ops :: "task \<Rightarrow> task_op list \<Rightarrow> task" where
  "run_ops t [] = t"
| "run_ops t (op # ops) = run_ops (snd (apply_op t op)) ops"

text \<open>
  \<open>fail_retry_cycles cs\<close> is the call sequence of \<open>length cs\<close> successive
  start, fail, retry rounds, each with its own agent, error text and clock readings.
\<close>

fun fail_retry_cycles :: "(string option \<times> int \<times> string \<times> int) list \<Rightarrow> task_op list" where
  "fail_retry_cycles [] = []"
| "fail_retry_cycles ((agent, t1, err, t2) # cs) =
     Start agent t1 # Fail err t2 # Retry # fail_retry_cycles cs"

text \<open>The two readings of the result invariant of a task: the one of the data model
  (exactly one of output and error is set), and what each status really carries.\<close>

definition exactly_one_set :: "task \<Rightarrow> bool" where
  "exactly_one_set t = ((output t \<noteq> None) \<noteq> (error t \<noteq> None))"

definition task_result_inv :: "task \<Rightarrow> bool" where
  "task_result_inv t =
     (case status t of
        Completed \<Rightarrow> output t \<noteq> None \<and> error t = None
      | Failed \<Rightarrow> output t = None \<and> error t \<noteq> None
      | _ \<Rightarrow> output t = None \<and> error t = None)"

text \<open>A task configuration used in the examples: two retries allowed.\<close>

definition example_config :: task_config where
  "example_config =
     \<lparr> cfg_id = Some ''t1'', cfg_runId = ''r1'', cfg_type = ''observe:scan'', cfg_input = [],
       cfg_parentId = None, cfg_agentId = None, cfg_priority = None,
       cfg_maxRetries = Some 2, cfg_timeoutMs = None \<rparr>"

section \<open>RateLimiter and CircuitBreaker (util/retry.ts)\<close>

record rate_limiter =
  requests :: "int list"
  maxRequests :: int
  windowMs :: int

definition new_rate_limiter :: "int \<Rightarrow> int \<Rightarrow> rate_limiter" where
  "new_rate_limiter max_requests window_ms =
     \<lparr> requests = [], maxRequests = max_requests, windowMs = window_ms \<rparr>"

text \<open>\<open>now\<close> is the clock reading \<^verbatim>\<open>cleanup\<close> takes.\<close>

definition cleanup :: "rate_limiter \<Rightarrow> int \<Rightarrow> rate_limiter" where
  "cleanup rl now = rl\<lparr>requests := filter (\<lambda>t. now - t < windowMs rl) (requests rl)\<rparr>"

text \<open>\<^verbatim>\<open>remaining()\<close>: the number it returns and the limiter it leaves behind.\<close>

definition remaining :: "rate_limiter \<Rightarrow> int \<Rightarrow> int \<times> rate_limiter" where
  "remaining rl now =
     (let rl1 = cleanup rl now
      in (max 0 (maxRequests rl1 - int (length (requests rl1))), rl1))"

text \<open>
  \<^verbatim>\<open>acquire()\<close> reads the clock up to four times: in the first \<^verbatim>\<open>cleanup\<close>, when it
  computes the wait, in the \<^verbatim>\<open>cleanup\<close> after the sleep, and when it records the
  request. It returns the time slept, if it slept. A timestamp \<open>0\<close> at the head of the
  window is falsy, so \<^verbatim>\<open>if (oldestRequest)\<close> skips the wait for it.
\<close>

definition acquire :: "rate_limiter \<Rightarrow> int \<Rightarrow> int \<Rightarrow> int \<Rightarrow> int \<Rightarrow> int option \<times> rate_limiter" where
  "acquire rl n1 n2 n3 n4 =
     (let rl1 = cleanup rl n1;
          (slept, rl2) =
            (if int (length (requests rl1)) \<ge> maxRequests rl1
             then (case requests rl1 of
                     [] \<Rightarrow> (None, rl1)
                   | oldest # _ \<Rightarrow>
                       if oldest \<noteq> 0 \<and> windowMs rl1 - (n2 - oldest) > 0
                       then (Some (windowMs rl1 - (n2 - oldest)), cleanup rl1 n3)
                       else (None, rl1))
             else (None, rl1))
      in (slept, rl2\<lparr>requests := requests rl2 @ [n4]\<rparr>))"

datatype CircuitState = CLOSED | OPEN | HALF_OPEN

record circuit_breaker =
  state :: CircuitState
  failures :: nat
  lastFailureTime :: int
  halfOpenSuccesses :: nat
  failureThreshold :: int
  resetTimeoutMs :: int
  halfOpenRequests :: int

record circuit_breaker_options =
  opt_failureThreshold :: int
  opt_resetTimeoutMs :: int
  opt_halfOpenRequests :: "int option"

definition new_circuit_breaker :: "circuit_breaker_options \<Rightarrow> circuit_breaker" where
  "new_circuit_breaker options =
     \<lparr> state = CLOSED, failures = 0, lastFailureTime = 0, halfOpenSuccesses = 0,
       failureThreshold = opt_failureThreshold options,
       resetTimeoutMs = opt_resetTimeoutMs options,
       halfOpenRequests = (case opt_halfOpenRequests options of Some n \<Rightarrow> n | None \<Rightarrow> 1) \<rparr>"

definition onSuccess :: "circuit_breaker \<Rightarrow> circuit_breaker" where
  "onSuccess cb =
     (if state cb = HALF_OPEN
      then (let cb1 = cb\<lparr>halfOpenSuccesses := halfOpenSuccesses cb + 1\<rparr>
            in if int (halfOpenSuccesses cb1) \<ge> halfOpenRequests cb1
               then cb1\<lparr>state := CLOSED, failures := 0\<rparr>
               else cb1)
      else cb\<lparr>failures := 0\<rparr>)"

definition onFailure :: "circuit_breaker \<Rightarrow> int \<Rightarrow> circuit_breaker" where
  "onFailure cb now =
     (let cb1 = cb\<lparr>failures := failures cb + 1, lastFailureTime := now\<rparr>
      in if state cb1 = HALF_OPEN \<or> int (failures cb1) \<ge> failureThreshold cb1
         then cb1\<lparr>state := OPEN\<rparr>
         else cb1)"

text \<open>
  The guarded function \<open>fn\<close> acts on the world outside the breaker, of which \<open>clock\<close>
  reads the time: it returns its value or the error it throws, and the world it leaves.
  \<open>execute\<close> returns the same, and the breaker after the call. When the breaker refuses
  the call, \<open>fn\<close> is not applied and the world is as before.
\<close>

type_synonym ('w, 'a) guarded = "'w \<Rightarrow> (js_error + 'a) \<times> 'w"

definition execute ::
  "('w \<Rightarrow> int) \<Rightarrow> circuit_breaker \<Rightarrow> ('w, 'a) guarded \<Rightarrow> 'w \<Rightarrow> (js_error + 'a) \<times> circuit_breaker \<times> 'w"
where
  "execute clock cb fn w =
     (if state cb = OPEN \<and> \<not> (clock w - lastFailureTime cb \<ge> resetTimeoutMs cb)
      then (Inl (Error ''Circuit breaker is open''), cb, w)
      else
        (let cb1 = (if state cb = OPEN then cb\<lparr>state := HALF_OPEN, halfOpenSuccesses := 0\<rparr> else cb)
         in case fn w of
              (Inr result, w') \<Rightarrow> (Inr result, onSuccess cb1, w')
            | (Inl err, w') \<Rightarrow> (Inl err, onFailure cb1 (clock w'), w')))"

definition reset :: "circuit_breaker \<Rightarrow> circuit_breaker" where
  "reset cb = cb\<lparr>state := CLOSED, failures := 0, halfOpenSuccesses := 0\<rparr>"

text \<open>A sequence of calls on one breaker: \<open>execute\<close> with a guarded function, or \<open>reset\<close>.\<close>

datatype ('w, 'a) breaker_call = Execute "('w, 'a) guarded" | Reset

fun run_calls ::
  "('w \<Rightarrow> int) \<Rightarrow> circuit_breaker \<Rightarrow> ('w, 'a) breaker_call list \<Rightarrow> 'w \<Rightarrow> circuit_breaker \<times> 'w"
where
  "run_calls clock cb [] w = (cb, w)"
| "run_calls clock cb (Execute fn # cs) w =
     (case execute clock cb fn w of (_, cb', w') \<Rightarrow> run_calls clock cb' cs w')"
| "run_calls clock cb (Reset # cs) w = run_calls clock (reset cb) cs w"

text \<open>A guarded function that throws whatever the world is.\<close>

definition always_fails :: "('w, 'a) guarded \<Rightarrow> bool" where
  "always_fails fn = (\<forall>w. isl (fst (fn w)))"

definition breaker_inv :: "circuit_breaker \<Rightarrow> bool" where
  "breaker_inv cb = (state cb = CLOSED \<longrightarrow> int (failures cb) < failureThreshold cb)"

text \<open>
  Examples: the world is the clock itself and every guarded call takes one millisecond.
  \<open>tripped_breaker\<close> is a new breaker with threshold 2 after two failed calls.
\<close>

definition example_options :: circuit_breaker_options where
  "example_options =
     \<lparr> opt_failureThreshold = 2, opt_resetTimeoutMs = 1000, opt_halfOpenRequests = None \<rparr>"

definition failing_call :: "(int, string) guarded" where
  "failing_call w = (Inl (Error ''down''), w + 1)"

definition working_call :: "(int, string) guarded" where
  "working_call w = (Inr ''ok'', w + 1)"

definition tripped_breaker :: circuit_breaker where
  "tripped_breaker =
     fst (run_calls (\<lambda>w. w) (new_circuit_breaker example_options)
            [Execute failing_call, Execute failing_call] 0)"

text \<open>A limiter of five requests a second that recorded one request at time 1000.\<close>

definition example_limiter :: rate_limiter where
  "example_limiter = snd (acquire (new_rate_limiter 5 1000) 1000 1000 1000 1000)"

section \<open>TaskManager (core/task/task-manager.ts)\<close>

text \<open>
  The manager's two indexes: \<^verbatim>\<open>tasks\<close>, from task id to task object, and
  \<^verbatim>\<open>tasksByRun\<close>, from run id to the set of task ids of the run, kept here as the list
  of its elements in insertion order (the order in which a JavaScript \<^verbatim>\<open>Set\<close> is
  iterated). A task object is reached through its key in \<^verbatim>\<open>tasks\<close>; mutating the
  object is updating the map at that key. The manager is the one built without a
  database, so \<^verbatim>\<open>syncToDb\<close> does nothing.
\<close>

record task_manager =
  tasks :: "string \<rightharpoonup> task"
  tasksByRun :: "string \<rightharpoonup> string list"

definition new_task_manager :: task_manager where
  "new_task_manager = \<lparr> tasks = Map.empty, tasksByRun = Map.empty \<rparr>"

definition addChild :: "task \<Rightarrow> string \<Rightarrow> task" where
  "addChild t childId =
     (if childId \<in> set (children t) then t else t\<lparr>children := children t @ [childId]\<rparr>)"

definition createTask :: "task_manager \<Rightarrow> task_config \<Rightarrow> string \<Rightarrow> int \<Rightarrow> string \<times> task_manager" where
  "createTask tm config fresh now =
     (let task = new_task config fresh now;
          tasks1 = (tasks tm)(task_id task \<mapsto> task);
          ids = (case tasksByRun tm (runId task) of None \<Rightarrow> [] | Some s \<Rightarrow> s);
          byRun1 = (tasksByRun tm)(runId task \<mapsto>
                     (if task_id task \<in> set ids then ids else ids @ [task_id task]));
          tasks2 = (case parentId task of
                      None \<Rightarrow> tasks1
                    | Some p \<Rightarrow>
                        (case tasks1 p of
                           None \<Rightarrow> tasks1
                         | Some parent \<Rightarrow> tasks1(p \<mapsto> addChild parent (task_id task))))
      in (task_id task, tm\<lparr>tasks := tasks2, tasksByRun := byRun1\<rparr>))"

definition getTask :: "task_manager \<Rightarrow> string \<Rightarrow> task option" where
  "getTask tm i = tasks tm i"

text \<open>The ids under a run whose task object exists: the keys of the objects that
  \<^verbatim>\<open>getTasksByRun\<close> returns, in its order.\<close>

definition run_task_ids :: "task_manager \<Rightarrow> string \<Rightarrow> string list" where
  "run_task_ids tm run =
     (case tasksByRun tm run of
        None \<Rightarrow> []
      | Some ids \<Rightarrow> filter (\<lambda>i. tasks tm i \<noteq> None) ids)"

definition getTasksByRun :: "task_manager \<Rightarrow> string \<Rightarrow> task list" where
  "getTasksByRun tm run = map (\<lambda>i. the (tasks tm i)) (run_task_ids tm run)"

text \<open>
  \<^verbatim>\<open>cancelTask\<close> cancels a task and then, through the child links, each child that is
  not terminal when its turn comes. The recursion is bounded by fuel; \<open>None\<close> is fuel
  exhausted. \<open>now i\<close> is the clock reading when the task with id \<open>i\<close> is cancelled.
\<close>

fun cancelTask ::
  "nat \<Rightarrow> task_manager \<Rightarrow> (string \<Rightarrow> int) \<Rightarrow> string \<Rightarrow> (js_error option \<times> task_manager) option"
and cancel_children ::
  "nat \<Rightarrow> task_manager \<Rightarrow> (string \<Rightarrow> int) \<Rightarrow> string list \<Rightarrow> (js_error option \<times> task_manager) option"
where
  "cancelTask 0 tm now taskId = None"
| "cancelTask (Suc k) tm now taskId =
     (case tasks tm taskId of
        None \<Rightarrow> Some (Some (Error (''Task not found: '' @ taskId)), tm)
      | Some task \<Rightarrow>
          (case cancel task (now taskId) of
             (Some e, _) \<Rightarrow> Some (Some e, tm)
           | (None, task') \<Rightarrow>
               cancel_children k (tm\<lparr>tasks := (tasks tm)(taskId \<mapsto> task')\<rparr>) now (children task')))"
| "cancel_children k tm now [] = Some (None, tm)"
| "cancel_children k tm now (childId # rest) =
     (case tasks tm childId of
        None \<Rightarrow> cancel_children k tm now rest
      | Some child \<Rightarrow>
          if \<not> isTerminal child
          then (case cancelTask k tm now childId of
                  None \<Rightarrow> None
                | Some (Some e, tm') \<Rightarrow> Some (Some e, tm')
                | Some (None, tm') \<Rightarrow> cancel_children k tm' now rest)
          else cancel_children k tm now rest)"

text \<open>
  \<^verbatim>\<open>cancelRunTasks\<close>: one pass over the task objects of the run, cancelling each that
  is not terminal and counting it. An error thrown by \<^verbatim>\<open>task.cancel()\<close> would end the
  pass.
\<close>

fun cancel_each ::
  "task_manager \<Rightarrow> (string \<Rightarrow> int) \<Rightarrow> string list \<Rightarrow> nat \<Rightarrow> (js_error + nat) \<times> task_manager"
where
  "cancel_each tm now [] cancelled = (Inr cancelled, tm)"
| "cancel_each tm now (i # ids) cancelled =
     (case tasks tm i of
        None \<Rightarrow> cancel_each tm now ids cancelled
      | Some task \<Rightarrow>
          if \<not> isTerminal task
          then (case cancel task (now i) of
                  (Some e, task') \<Rightarrow> (Inl e, tm\<lparr>tasks := (tasks tm)(i \<mapsto> task')\<rparr>)
                | (None, task') \<Rightarrow>
                    cancel_each (tm\<lparr>tasks := (tasks tm)(i \<mapsto> task')\<rparr>) now ids (cancelled + 1))
          else cancel_each tm now ids cancelled)"

definition cancelRunTasks ::
  "task_manager \<Rightarrow> string \<Rightarrow> (string \<Rightarrow> int) \<Rightarrow> (js_error + nat) \<times> task_manager"
where
  "cancelRunTasks tm run now = cancel_each tm now (run_task_ids tm run) 0"

text \<open>A task that is present and not terminal, and what \<open>cancel\<close> makes of it.\<close>

definition live :: "task_manager \<Rightarrow> string \<Rightarrow> bool" where
  "live tm i = (case tasks tm i of None \<Rightarrow> False | Some t \<Rightarrow> \<not> isTerminal t)"

definition cancelled_at :: "int \<Rightarrow> task \<Rightarrow> task" where
  "cancelled_at now t = t\<lparr>status := Cancelled, completedAt := Some now\<rparr>"

definition live_ids :: "task_manager \<Rightarrow> string \<Rightarrow> string set" where
  "live_ids tm run = {i \<in> set (run_task_ids tm run). live tm i}"

inductive descendant :: "task_manager \<Rightarrow> string \<Rightarrow> string \<Rightarrow> bool" for tm where
  child: "tasks tm p = Some t \<Longrightarrow> c \<in> set (children t) \<Longrightarrow> descendant tm p c"
| trans: "descendant tm p c \<Longrightarrow> descendant tm c d \<Longrightarrow> descendant tm p d"

text \<open>
  Example: task \<open>A\<close> of run \<open>r1\<close> with two children, \<open>B\<close> in the same run and \<open>C\<close>
  in run \<open>r2\<close>, and a task \<open>D\<close> of run \<open>r1\<close> that has already completed.
\<close>

definition task_cfg :: "string \<Rightarrow> string \<Rightarrow> string option \<Rightarrow> task_config" where
  "task_cfg i run parent =
     \<lparr> cfg_id = Some i, cfg_runId = run, cfg_type = ''analyze:score'', cfg_input = [],
       cfg_parentId = parent, cfg_agentId = None, cfg_priority = None,
       cfg_maxRetries = None, cfg_timeoutMs = None \<rparr>"

definition family_manager :: task_manager where
  "family_manager =
     (let tm1 = snd (createTask new_task_manager (task_cfg ''A'' ''r1'' None) ''u1'' 10);
          tm2 = snd (createTask tm1 (task_cfg ''B'' ''r1'' (Some ''A'')) ''u2'' 11);
          tm3 = snd (createTask tm2 (task_cfg ''C'' ''r2'' (Some ''A'')) ''u3'' 12);
          tm4 = snd (createTask tm3 (task_cfg ''D'' ''r1'' None) ''u4'' 13)
      in tm4\<lparr>tasks := (tasks tm4)(''D'' \<mapsto>
           run_ops (the (tasks tm4 ''D'')) [Start None 14, Complete [] 15])\<rparr>)"

text \<open>A clock that reads 50 at every cancellation.\<close>

definition fixed_clock :: "string \<Rightarrow> int" where
  "fixed_clock i = 50"

section \<open>Policy (core/policy/policy.ts)\<close>

datatype PolicyAction = Allow | Deny | RequireApproval

datatype condition_type = CTool | CRole | CTime | CRate | CCustom

datatype condition_operator = Equals | Contains | Matches | Gt | Lt | Gte | Lte

text \<open>
  The values a condition or a call parameter may hold (\<^verbatim>\<open>unknown\<close> in the source). The
  numbers of JavaScript are the values of a type \<open>'n\<close>, of which only the host language
  knows how they print, compare and are read from a string (see \<open>host\<close> below). Objects
  other than arrays are left out.
\<close>

datatype 'n js_value =
    JUndefined
  | JNull
  | JBool bool
  | JNumber 'n
  | JString string
  | JArray "'n js_value list"

record 'n PolicyCondition =
  cond_type :: condition_type
  cond_operator :: condition_operator
  cond_value :: "'n js_value"
  cond_field :: "string option"

text \<open>
  A priority is a finite number, a value of a type \<open>'p\<close> ordered as the numbers are
  (\<^verbatim>\<open>NaN\<close> and the infinities, on which the comparison function of the sort below is
  not an order, are left out).
\<close>

record ('n, 'p) PolicyRule =
  rule_id :: string
  rule_name :: string
  rule_description :: "string option"
  rule_condition :: "'n PolicyCondition"
  rule_action :: PolicyAction
  rule_priority :: 'p

record ('n, 'p) PolicyEvaluationResult =
  allowed :: bool
  result_action :: PolicyAction
  matchedRule :: "('n, 'p) PolicyRule option"
  reason :: "string option"

record ('n, 'p) Policy =
  policy_id :: string
  policy_name :: string
  policy_description :: "string option"
  rules :: "('n, 'p) PolicyRule list"
  defaultAction :: PolicyAction

record ('n, 'p) policy_config =
  pc_id :: string
  pc_name :: string
  pc_description :: "string option"
  pc_defaultAction :: "PolicyAction option"
  pc_rules :: "('n, 'p) PolicyRule list option"

record agent =
  agent_id :: string
  agent_role :: string

text \<open>
  \<^verbatim>\<open>sort((a, b) => b.priority - a.priority)\<close>: the difference is negative exactly when
  \<open>a\<close> has the higher priority. JavaScript's sort is stable, and so is insertion sort
  by the negated priority.
\<close>

definition by_priority_desc ::
  "('n, 'p::linordered_ab_group_add) PolicyRule list \<Rightarrow> ('n, 'p) PolicyRule list"
where
  "by_priority_desc rs = sort_key (\<lambda>r. - rule_priority r) rs"

definition new_policy ::
  "('n, 'p::linordered_ab_group_add) policy_config \<Rightarrow> ('n, 'p) Policy"
where
  "new_policy config =
     \<lparr> policy_id = pc_id config,
       policy_name = pc_name config,
       policy_description = pc_description config,
       rules = (case pc_rules config of None \<Rightarrow> [] | Some rs \<Rightarrow> by_priority_desc rs),
       defaultAction = (case pc_defaultAction config of None \<Rightarrow> Deny | Some a \<Rightarrow> a) \<rparr>"

definition addRule ::
  "('n, 'p::linordered_ab_group_add) Policy \<Rightarrow> ('n, 'p) PolicyRule \<Rightarrow> ('n, 'p) Policy"
where
  "addRule p rule = p\<lparr>rules := by_priority_desc (rules p @ [rule])\<rparr>"

text \<open>\<^verbatim>\<open>splice(index, 1)\<close> at the first index whose element satisfies the test.\<close>

fun splice_first :: "('a \<Rightarrow> bool) \<Rightarrow> 'a list \<Rightarrow> 'a list" where
  "splice_first P [] = []"
| "splice_first P (x # xs) = (if P x then xs else x # splice_first P xs)"

definition removeRule :: "('n, 'p) Policy \<Rightarrow> string \<Rightarrow> bool \<times> ('n, 'p) Policy" where
  "removeRule p ruleId =
     (if \<exists>r \<in> set (rules p). rule_id r = ruleId
      then (True, p\<lparr>rules := splice_first (\<lambda>r. rule_id r = ruleId) (rules p)\<rparr>)
      else (False, p))"

text \<open>
  What the host language supplies. \<open>regexp_test pattern s\<close> is
  \<^verbatim>\<open>new RegExp(pattern).test(s)\<close>, which throws a \<^verbatim>\<open>SyntaxError\<close> when the pattern is not
  a well-formed regular expression. Of the numbers: \<open>number_to_string\<close> is
  \<^verbatim>\<open>String(n)\<close>; \<open>number_equal\<close> is \<^verbatim>\<open>===\<close> on two numbers; \<open>number_less a b\<close> is the
  comparison behind \<^verbatim>\<open><\<close>, \<^verbatim>\<open>>\<close>, \<^verbatim>\<open><=\<close> and \<^verbatim>\<open>>=\<close>, which is undefined (\<open>None\<close>) when
  \<open>a\<close> or \<open>b\<close> is \<^verbatim>\<open>NaN\<close>; \<open>string_to_number\<close> is the number a string is converted to;
  \<open>number_zero\<close>, \<open>number_one\<close> and \<open>number_nan\<close> are \<^verbatim>\<open>0\<close>, \<^verbatim>\<open>1\<close> and \<^verbatim>\<open>NaN\<close>.
\<close>

record 'n host =
  regexp_test :: "string \<Rightarrow> string \<Rightarrow> js_error + bool"
  number_to_string :: "'n \<Rightarrow> string"
  number_equal :: "'n \<Rightarrow> 'n \<Rightarrow> bool"
  number_less :: "'n \<Rightarrow> 'n \<Rightarrow> bool option"
  string_to_number :: "string \<Rightarrow> 'n"
  number_zero :: 'n
  number_one :: 'n
  number_nan :: 'n

fun is_prefix :: "string \<Rightarrow> string \<Rightarrow> bool" where
  "is_prefix [] s = True"
| "is_prefix (c # cs) [] = False"
| "is_prefix (c # cs) (d # ds) = (c = d \<and> is_prefix cs ds)"

text \<open>\<^verbatim>\<open>s.includes(sub)\<close>.\<close>

fun str_includes :: "string \<Rightarrow> string \<Rightarrow> bool" where
  "str_includes [] sub = (sub = [])"
| "str_includes (c # cs) sub = (is_prefix sub (c # cs) \<or> str_includes cs sub)"

fun join_comma :: "string list \<Rightarrow> string" where
  "join_comma [] = []"
| "join_comma [s] = s"
| "join_comma (s # t # ss) = s @ '','' @ join_comma (t # ss)"

fun is_nullish :: "'n js_value \<Rightarrow> bool" where
  "is_nullish JUndefined = True"
| "is_nullish JNull = True"
| "is_nullish _ = False"

text \<open>\<^verbatim>\<open>String(v)\<close>; an array prints its elements joined by commas, \<^verbatim>\<open>null\<close> and
  \<^verbatim>\<open>undefined\<close> among them as nothing.\<close>

fun js_String :: "'n host \<Rightarrow> 'n js_value \<Rightarrow> string" where
  "js_String h JUndefined = ''undefined''"
| "js_String h JNull = ''null''"
| "js_String h (JBool b) = (if b then ''true'' else ''false'')"
| "js_String h (JNumber n) = number_to_string h n"
| "js_String h (JString s) = s"
| "js_String h (JArray vs) =
     join_comma (map (\<lambda>v. if is_nullish v then [] else js_String h v) vs)"

text \<open>\<^verbatim>\<open>a === b\<close>. Two arrays are equal only as the same object; the array of a rule
  and the array of a call are taken to be different objects.\<close>

fun strict_equals :: "'n host \<Rightarrow> 'n js_value \<Rightarrow> 'n js_value \<Rightarrow> bool" where
  "strict_equals h JUndefined JUndefined = True"
| "strict_equals h JNull JNull = True"
| "strict_equals h (JBool a) (JBool b) = (a = b)"
| "strict_equals h (JNumber a) (JNumber b) = number_equal h a b"
| "strict_equals h (JString a) (JString b) = (a = b)"
| "strict_equals h _ _ = False"

text \<open>The number a value is converted to in a comparison with a number.\<close>

fun to_number :: "'n host \<Rightarrow> 'n js_value \<Rightarrow> 'n" where
  "to_number h JUndefined = number_nan h"
| "to_number h JNull = number_zero h"
| "to_number h (JBool b) = (if b then number_one h else number_zero h)"
| "to_number h (JNumber n) = n"
| "to_number h (JString s) = string_to_number h s"
| "to_number h (JArray vs) = string_to_number h (js_String h (JArray vs))"

text \<open>
  The comparisons of a number with a value, as in
  \<^verbatim>\<open>value > (condition.value as number)\<close>, where the cast does nothing when the program
  runs: the value is converted to a number, \<^verbatim>\<open>a < b\<close> and \<^verbatim>\<open>b > a\<close> hold when
  \<open>number_less a b\<close> is true, \<^verbatim>\<open>a >= b\<close> and \<^verbatim>\<open>b <= a\<close> when it is false, and none of
  them when it is undefined.
\<close>

definition js_gt :: "'n host \<Rightarrow> 'n \<Rightarrow> 'n js_value \<Rightarrow> bool" where
  "js_gt h n expected = (number_less h (to_number h expected) n = Some True)"

definition js_lt :: "'n host \<Rightarrow> 'n \<Rightarrow> 'n js_value \<Rightarrow> bool" where
  "js_lt h n expected = (number_less h n (to_number h expected) = Some True)"

definition js_gte :: "'n host \<Rightarrow> 'n \<Rightarrow> 'n js_value \<Rightarrow> bool" where
  "js_gte h n expected = (number_less h n (to_number h expected) = Some False)"

definition js_lte :: "'n host \<Rightarrow> 'n \<Rightarrow> 'n js_value \<Rightarrow> bool" where
  "js_lte h n expected = (number_less h (to_number h expected) n = Some False)"

text \<open>\<open>evaluateToolCondition\<close> returns a truth value or throws what \<^verbatim>\<open>new RegExp\<close> throws.\<close>

definition evaluateToolCondition ::
  "'n host \<Rightarrow> 'n PolicyCondition \<Rightarrow> string \<Rightarrow> js_error + bool"
where
  "evaluateToolCondition h condition toolName =
     (case cond_operator condition of
        Equals \<Rightarrow> Inr (strict_equals h (JString toolName) (cond_value condition))
      | Contains \<Rightarrow> Inr (str_includes toolName (js_String h (cond_value condition)))
      | Matches \<Rightarrow> regexp_test h (js_String h (cond_value condition)) toolName
      | _ \<Rightarrow> Inr False)"

fun is_string :: "string \<Rightarrow> 'n js_value \<Rightarrow> bool" where
  "is_string s (JString t) = (s = t)"
| "is_string s _ = False"

definition evaluateRoleCondition :: "'n host \<Rightarrow> 'n PolicyCondition \<Rightarrow> string \<Rightarrow> bool" where
  "evaluateRoleCondition h condition role =
     (case cond_operator condition of
        Equals \<Rightarrow> strict_equals h (JString role) (cond_value condition)
      | Contains \<Rightarrow>
          (case cond_value condition of
             JArray vs \<Rightarrow> list_ex (is_string role) vs
           | _ \<Rightarrow> False)
      | _ \<Rightarrow> False)"

definition evaluateCustomCondition ::
  "'n host \<Rightarrow> 'n PolicyCondition \<Rightarrow> (string \<rightharpoonup> 'n js_value) \<Rightarrow> bool"
where
  "evaluateCustomCondition h condition params =
     (case truthy_str (cond_field condition) of
        None \<Rightarrow> False
      | Some field \<Rightarrow>
          (let v = (case params field of None \<Rightarrow> JUndefined | Some x \<Rightarrow> x)
           in case cond_operator condition of
                Equals \<Rightarrow> strict_equals h v (cond_value condition)
              | Gt \<Rightarrow> (case v of JNumber n \<Rightarrow> js_gt h n (cond_value condition) | _ \<Rightarrow> False)
              | Lt \<Rightarrow> (case v of JNumber n \<Rightarrow> js_lt h n (cond_value condition) | _ \<Rightarrow> False)
              | Gte \<Rightarrow> (case v of JNumber n \<Rightarrow> js_gte h n (cond_value condition) | _ \<Rightarrow> False)
              | Lte \<Rightarrow> (case v of JNumber n \<Rightarrow> js_lte h n (cond_value condition) | _ \<Rightarrow> False)
              | _ \<Rightarrow> False))"

text \<open>The context carries the clock reading taken by \<open>evaluate\<close>; no condition reads it.\<close>

record 'n eval_context =
  ctx_agent :: agent
  ctx_toolName :: string
  ctx_params :: "string \<rightharpoonup> 'n js_value"
  ctx_timestamp :: int

definition evaluateCondition ::
  "'n host \<Rightarrow> 'n PolicyCondition \<Rightarrow> 'n eval_context \<Rightarrow> js_error + bool"
where
  "evaluateCondition h condition context =
     (case cond_type condition of
        CTool \<Rightarrow> evaluateToolCondition h condition (ctx_toolName context)
      | CRole \<Rightarrow> Inr (evaluateRoleCondition h condition (agent_role (ctx_agent context)))
      | CCustom \<Rightarrow> Inr (evaluateCustomCondition h condition (ctx_params context))
      | _ \<Rightarrow> Inr False)"

definition rule_result :: "('n, 'p) PolicyRule \<Rightarrow> ('n, 'p) PolicyEvaluationResult" where
  "rule_result rule =
     \<lparr> allowed = (rule_action rule = Allow),
       result_action = rule_action rule,
       matchedRule = Some rule,
       reason = Some (case truthy_str (rule_description rule) of
                        Some d \<Rightarrow> d
                      | None \<Rightarrow> ''Matched rule: '' @ rule_name rule) \<rparr>"

definition default_result :: "PolicyAction \<Rightarrow> ('n, 'p) PolicyEvaluationResult" where
  "default_result a =
     \<lparr> allowed = (a = Allow),
       result_action = a,
       matchedRule = None,
       reason = Some ''No matching rule found, using default policy'' \<rparr>"

text \<open>
  The loop of \<open>evaluate\<close> over the rules: it returns at the first match, and an error
  thrown for a rule leaves the loop and \<open>evaluate\<close>.
\<close>

fun evaluate_rules ::
  "'n host \<Rightarrow> ('n, 'p) PolicyRule list \<Rightarrow> 'n eval_context \<Rightarrow> PolicyAction
     \<Rightarrow> js_error + ('n, 'p) PolicyEvaluationResult"
where
  "evaluate_rules h [] context dflt = Inr (default_result dflt)"
| "evaluate_rules h (rule # rest) context dflt =
     (case evaluateCondition h (rule_condition rule) context of
        Inl e \<Rightarrow> Inl e
      | Inr matches \<Rightarrow>
          if matches then Inr (rule_result rule)
          else evaluate_rules h rest context dflt)"

definition evaluate ::
  "'n host \<Rightarrow> ('n, 'p) Policy \<Rightarrow> agent \<Rightarrow> string \<Rightarrow> (string \<rightharpoonup> 'n js_value) \<Rightarrow> int
     \<Rightarrow> js_error + ('n, 'p) PolicyEvaluationResult"
where
  "evaluate h p ag toolName params now =
     evaluate_rules h (rules p)
       \<lparr> ctx_agent = ag, ctx_toolName = toolName, ctx_params = params, ctx_timestamp = now \<rparr>
       (defaultAction p)"

text \<open>
  A policy as it comes to be: built from a configuration, then changed by \<open>addRule\<close> and
  \<open>removeRule\<close>. \<open>surviving\<close> is the list of the rules still present, in the order in
  which they were given (the configuration's rules first).
\<close>

datatype ('n, 'p) policy_op = AddRule "('n, 'p) PolicyRule" | RemoveRule string

fun apply_policy_op ::
  "('n, 'p::linordered_ab_group_add) Policy \<Rightarrow> ('n, 'p) policy_op \<Rightarrow> ('n, 'p) Policy"
where
  "apply_policy_op p (AddRule r) = addRule p r"
| "apply_policy_op p (RemoveRule i) = snd (removeRule p i)"

definition build_policy ::
  "('n, 'p::linordered_ab_group_add) policy_config \<Rightarrow> ('n, 'p) policy_op list \<Rightarrow> ('n, 'p) Policy"
where
  "build_policy config ops = foldl apply_policy_op (new_policy config) ops"

fun surviving_step ::
  "('n, 'p::linordered_ab_group_add) PolicyRule list \<Rightarrow> ('n, 'p) policy_op
     \<Rightarrow> ('n, 'p) PolicyRule list"
where
  "surviving_step rs (AddRule r) = rs @ [r]"
| "surviving_step rs (RemoveRule i) =
     (case find (\<lambda>r. rule_id r = i) (by_priority_desc rs) of
        None \<Rightarrow> rs
      | Some r \<Rightarrow> remove1 r rs)"

definition surviving ::
  "('n, 'p::linordered_ab_group_add) policy_config \<Rightarrow> ('n, 'p) policy_op list
     \<Rightarrow> ('n, 'p) PolicyRule list"
where
  "surviving config ops =
     foldl surviving_step (case pc_rules config of None \<Rightarrow> [] | Some rs \<Rightarrow> rs) ops"

text \<open>What the evaluation of a rule's condition gives for a call: whether it matches, or
  the error it throws.\<close>

definition rule_verdict ::
  "'n host \<Rightarrow> agent \<Rightarrow> string \<Rightarrow> (string \<rightharpoonup> 'n js_value) \<Rightarrow> int \<Rightarrow> ('n, 'p) PolicyRule
     \<Rightarrow> js_error + bool"
where
  "rule_verdict h ag toolName params now rule =
     evaluateCondition h (rule_condition rule)
       \<lparr> ctx_agent = ag, ctx_toolName = toolName, ctx_params = params, ctx_timestamp = now \<rparr>"

text \<open>The presets \<^verbatim>\<open>createReadOnlyPolicy\<close>, \<^verbatim>\<open>createApprovalRequiredPolicy\<close> and
  \<^verbatim>\<open>createExecutorPolicy\<close>, whose priorities are integers.\<close>

definition tool_rule ::
  "string \<Rightarrow> string \<Rightarrow> condition_operator \<Rightarrow> string \<Rightarrow> PolicyAction \<Rightarrow> int
     \<Rightarrow> ('n, int) PolicyRule"
where
  "tool_rule i n operator v a prio =
     \<lparr> rule_id = i, rule_name = n, rule_description = None,
       rule_condition = \<lparr> cond_type = CTool, cond_operator = operator,
                          cond_value = JString v, cond_field = None \<rparr>,
       rule_action = a, rule_priority = prio \<rparr>"

definition createReadOnlyPolicy :: "string \<Rightarrow> ('n, int) Policy" where
  "createReadOnlyPolicy i =
     new_policy
       \<lparr> pc_id = i, pc_name = ''Read Only'',
         pc_description = Some ''Only allows read operations'',
         pc_defaultAction = Some Deny,
         pc_rules = Some
           [tool_rule ''allow-read'' ''Allow Read Operations'' Contains ''read'' Allow 100,
            tool_rule ''allow-get'' ''Allow Get Operations'' Contains ''get'' Allow 100,
            tool_rule ''allow-list'' ''Allow List Operations'' Contains ''list'' Allow 100,
            tool_rule ''allow-watch'' ''Allow Watch Operations'' Contains ''watch'' Allow 100] \<rparr>"

definition approval_config :: "string \<Rightarrow> ('n, int) policy_config" where
  "approval_config i =
     \<lparr> pc_id = i, pc_name = ''Approval Required'',
       pc_description = Some ''Requires approval for all actions'',
       pc_defaultAction = Some RequireApproval,
       pc_rules = Some [] \<rparr>"

definition createApprovalRequiredPolicy :: "string \<Rightarrow> ('n, int) Policy" where
  "createApprovalRequiredPolicy i = new_policy (approval_config i)"

definition executor_config :: "string \<Rightarrow> ('n, int) policy_config" where
  "executor_config i =
     \<lparr> pc_id = i, pc_name = ''Executor Policy'',
       pc_description = Some ''Policy for executor agents'',
       pc_defaultAction = Some Deny,
       pc_rules = Some
         [tool_rule ''allow-execute'' ''Allow Execute Operations'' Contains ''execute''
            RequireApproval 100,
          tool_rule ''allow-webhook'' ''Allow Webhook Operations'' Contains ''webhook'' Allow 90,
          tool_rule ''allow-file'' ''Allow File Write to Reports'' Contains ''file_write''
            Allow 90] \<rparr>"

definition createExecutorPolicy :: "string \<Rightarrow> ('n, int) Policy" where
  "createExecutorPolicy i = new_policy (executor_config i)"

text \<open>
  A host for the examples. Its numbers are the integers and \<^verbatim>\<open>NaN\<close> (\<open>None\<close>). It is
  JavaScript on what the examples use: the pattern \<^verbatim>\<open>(\<close> is not a regular expression,
  and a pattern of lower-case letters and underscores matches the strings that contain
  it; of the numbers, on the integers below \<^verbatim>\<open>2 ** 53\<close> in magnitude and on the strings of
  decimal digits. No example uses another pattern, number or string.
\<close>

definition plain_pattern :: "string \<Rightarrow> bool" where
  "plain_pattern p = list_all (\<lambda>c. c \<in> set ''abcdefghijklmnopqrstuvwxyz_'') p"

definition example_regexp_test :: "string \<Rightarrow> string \<Rightarrow> js_error + bool" where
  "example_regexp_test p s =
     (if p = ''(''
      then Inl (Error ''Invalid regular expression: /(/: Unterminated group'')
      else Inr (plain_pattern p \<and> str_includes s p))"

fun read_digits :: "nat \<Rightarrow> string \<Rightarrow> nat option" where
  "read_digits acc [] = Some acc"
| "read_digits acc (c # cs) =
     (case map_of (zip ''0123456789'' [0..<10]) c of
        None \<Rightarrow> None
      | Some d \<Rightarrow> read_digits (10 * acc + d) cs)"

definition number_text :: "int \<Rightarrow> string" where
  "number_text i = (if 0 \<le> i then decimal (nat i) else CHR ''-'' # decimal (nat (- i)))"

definition example_host :: "int option host" where
  "example_host =
     \<lparr> regexp_test = example_regexp_test,
       number_to_string = (\<lambda>n. case n of None \<Rightarrow> ''NaN'' | Some i \<Rightarrow> number_text i),
       number_equal = (\<lambda>a b. a \<noteq> None \<and> a = b),
       number_less = (\<lambda>a b. case (a, b) of (Some i, Some j) \<Rightarrow> Some (i < j) | _ \<Rightarrow> None),
       string_to_number = (\<lambda>s. map_option int (read_digits 0 s)),
       number_zero = Some 0,
       number_one = Some 1,
       number_nan = None \<rparr>"

definition example_agent :: agent where
  "example_agent = \<lparr> agent_id = ''agent-1'', agent_role = ''executor'' \<rparr>"

text \<open>
  Rules added to the presets in the examples: one of the priority of the webhook rule
  of the executor preset, one above all its rules, one whose pattern is not a regular
  expression, and one on a parameter of the call.
\<close>

definition deny_hooks :: "(int option, int) PolicyRule" where
  "deny_hooks = tool_rule ''deny-hooks'' ''Deny Hooks'' Contains ''hook'' Deny 90"

definition deny_admin :: "(int option, int) PolicyRule" where
  "deny_admin = tool_rule ''deny-admin'' ''Deny Admin'' Contains ''admin'' Deny 500"

definition deny_group :: "(int option, int) PolicyRule" where
  "deny_group = tool_rule ''deny-group'' ''Deny Group'' Matches ''('' Deny 95"

definition allow_webhook :: "(int option, int) PolicyRule" where
  "allow_webhook =
     tool_rule ''allow-webhook'' ''Allow Webhook Operations'' Contains ''webhook'' Allow 90"

definition allow_all_config :: "(int option, int) policy_config" where
  "allow_all_config =
     \<lparr> pc_id = ''p3'', pc_name = ''Open'', pc_description = None,
       pc_defaultAction = Some Allow, pc_rules = None \<rparr>"

definition unset_config :: "(int option, int) policy_config" where
  "unset_config =
     \<lparr> pc_id = ''p4'', pc_name = ''Unset'', pc_description = None,
       pc_defaultAction = None, pc_rules = None \<rparr>"

definition allow_execute :: "(int option, int) PolicyRule" where
  "allow_execute =
     tool_rule ''allow-execute'' ''Allow Execute Operations'' Contains ''execute''
       RequireApproval 100"

definition allow_file :: "(int option, int) PolicyRule" where
  "allow_file =
     tool_rule ''allow-file'' ''Allow File Write to Reports'' Contains ''file_write'' Allow 90"

definition example_ops :: "(int option, int) policy_op list" where
  "example_ops = [AddRule deny_hooks, AddRule deny_admin, RemoveRule ''allow-file'']"

section \<open>WorkflowRunner (workflows/runner.ts)\<close>

record step =
  plugin :: string
  action :: string
  config :: payload
  requireApproval :: "bool option"

datatype step_status = StepCompleted | StepFailed | StepSkipped

datatype run_status = RunPending | RunRunning | RunCompleted | RunFailed | RunCancelled

text \<open>\<^verbatim>\<open>StepResult\<close> and \<^verbatim>\<open>WorkflowResult\<close>, without their timings; of the summary, the
  two counts taken from the step results (the others are read from storage).\<close>

record step_result =
  sr_plugin :: string
  sr_action :: string
  sr_status :: step_status
  sr_result :: "payload option"
  sr_error :: "string option"

record workflow_result =
  wr_runId :: string
  wr_workflowId :: string
  wr_status :: run_status
  wr_steps :: "step_result list"
  wr_stepsCompleted :: nat
  wr_stepsFailed :: nat
  wr_errors :: "string list"

text \<open>
  What a plugin's \<^verbatim>\<open>execute(action, context, input)\<close> does: it returns
  \<^verbatim>\<open>{success, data?, error?}\<close> or throws, and it acts on the world \<open>'w\<close> outside the
  runner. A plugin is given the action, the effective dry-run flag and the merged input.
\<close>

datatype plugin_outcome =
    Returned bool "payload option" "string option"
  | Thrown string

type_synonym 'w plugin_impl = "string \<Rightarrow> bool \<Rightarrow> payload \<Rightarrow> 'w \<Rightarrow> plugin_outcome \<times> 'w"

text \<open>
  The collaborators of the runner: the plugin registry, and storage, of which every
  write (\<^verbatim>\<open>db.runs.create\<close>, \<^verbatim>\<open>db.tasks.update\<close>, ...) either succeeds or throws.
\<close>

record 'w runner_env =
  plugins_get :: "string \<Rightarrow> 'w plugin_impl option"
  db_write :: "'w \<Rightarrow> js_error option \<times> 'w"

text \<open>
  \<^verbatim>\<open>{...input, ...step.config}\<close>: a key of the input keeps its place and takes the value
  the step's configuration gives it, if it gives one; the keys that only the
  configuration has follow, in its order.
\<close>

definition merge_input :: "payload \<Rightarrow> payload \<Rightarrow> payload" where
  "merge_input inp cfg =
     map (\<lambda>(k, v). (k, case map_of cfg k of None \<Rightarrow> v | Some v' \<Rightarrow> v')) inp @
     filter (\<lambda>(k, _). k \<notin> fst ` set inp) cfg"

text \<open>A template literal prints a missing error as \<^verbatim>\<open>undefined\<close>.\<close>

definition error_text :: "string option \<Rightarrow> string" where
  "error_text e = (case e of None \<Rightarrow> ''undefined'' | Some m \<Rightarrow> m)"

text \<open>
  The \<^verbatim>\<open>catch\<close> block of \<open>executeStep\<close>: it marks the task failed in storage and
  returns a failed step result carrying the message of the error caught.
\<close>

definition step_caught ::
  "'w runner_env \<Rightarrow> step \<Rightarrow> string \<Rightarrow> 'w \<Rightarrow> (js_error + step_result) \<times> 'w"
where
  "step_caught env st msg w =
     (case db_write env w of
        (Some e, w') \<Rightarrow> (Inl e, w')
      | (None, w') \<Rightarrow>
          (Inr \<lparr> sr_plugin = plugin st, sr_action = action st, sr_status = StepFailed,
                 sr_result = None, sr_error = Some msg \<rparr>, w'))"

text \<open>
  \<open>executeStep\<close>. The storage writes that create the task and mark it running, and the
  one for a missing plugin, are outside the \<^verbatim>\<open>try\<close>; the one after the plugin has
  returned is inside it, so its error is caught like an error of the plugin.
\<close>

definition executeStep ::
  "'w runner_env \<Rightarrow> bool \<Rightarrow> bool \<Rightarrow> step \<Rightarrow> payload \<Rightarrow> 'w \<Rightarrow> (js_error + step_result) \<times> 'w"
where
  "executeStep env dryRun approve st inp w =
     (case db_write env w of
        (Some e, w1) \<Rightarrow> (Inl e, w1)
      | (None, w1) \<Rightarrow>
     (case db_write env w1 of
        (Some e, w2) \<Rightarrow> (Inl e, w2)
      | (None, w2) \<Rightarrow>
     (case plugins_get env (plugin st) of
        None \<Rightarrow>
          (case db_write env w2 of
             (Some e, w3) \<Rightarrow> (Inl e, w3)
           | (None, w3) \<Rightarrow>
               (Inr \<lparr> sr_plugin = plugin st, sr_action = action st, sr_status = StepFailed,
                      sr_result = None,
                      sr_error = Some (''Plugin not found: '' @ plugin st) \<rparr>, w3))
      | Some impl \<Rightarrow>
          (case impl (action st) (dryRun \<and> \<not> approve) (merge_input inp (config st)) w2 of
             (Returned success data err, w3) \<Rightarrow>
               (case db_write env w3 of
                  (Some (Error msg), w4) \<Rightarrow> step_caught env st msg w4
                | (None, w4) \<Rightarrow>
                    (Inr \<lparr> sr_plugin = plugin st, sr_action = action st,
                           sr_status = (if success then StepCompleted else StepFailed),
                           sr_result = data, sr_error = err \<rparr>, w4))
           | (Thrown msg, w3) \<Rightarrow> step_caught env st msg w3))))"

text \<open>The entry \<^verbatim>\<open>`${step.plugin}:${step.action} - ${stepResult.error}`\<close>.\<close>

definition failure_entry :: "step \<Rightarrow> step_result \<Rightarrow> string" where
  "failure_entry st r = plugin st @ '':'' @ action st @ '' - '' @ error_text (sr_error r)"

text \<open>
  The loop of \<open>run\<close> over the steps, inside its \<^verbatim>\<open>try\<close>: the step results and errors
  gathered so far are passed along, and the loop ends with the status of the run.
\<close>

fun run_steps ::
  "'w runner_env \<Rightarrow> bool \<Rightarrow> bool \<Rightarrow> payload \<Rightarrow> step list \<Rightarrow> step_result list \<Rightarrow> string list \<Rightarrow> 'w
     \<Rightarrow> (run_status \<times> step_result list \<times> string list) \<times> 'w"
where
  "run_steps env dryRun approve inp [] stepResults errors w =
     ((RunCompleted, stepResults, errors), w)"
| "run_steps env dryRun approve inp (st # rest) stepResults errors w =
     (case executeStep env dryRun approve st inp w of
        (Inl (Error msg), w') \<Rightarrow> ((RunFailed, stepResults, errors @ [msg]), w')
      | (Inr stepResult, w') \<Rightarrow>
          if sr_status stepResult = StepFailed
          then (if plugin st = ''observe''
                then ((RunFailed, stepResults @ [stepResult],
                       errors @ [failure_entry st stepResult]), w')
                else run_steps env dryRun approve inp rest (stepResults @ [stepResult])
                       (errors @ [failure_entry st stepResult]) w')
          else run_steps env dryRun approve inp rest (stepResults @ [stepResult]) errors w')"

text \<open>\<open>run\<close>: \<open>fresh\<close> is the run id \<^verbatim>\<open>nanoid()\<close> returns. The two storage writes before
  the loop and the one after it are outside the \<^verbatim>\<open>try\<close>, so their errors leave \<open>run\<close>.\<close>

definition run ::
  "'w runner_env \<Rightarrow> (string \<rightharpoonup> step list) \<Rightarrow> bool \<Rightarrow> bool \<Rightarrow> string \<Rightarrow> payload \<Rightarrow> string \<Rightarrow> 'w
     \<Rightarrow> (js_error + workflow_result) \<times> 'w"
where
  "run env workflows dryRun approve workflowId inp fresh w =
     (case workflows workflowId of
        None \<Rightarrow> (Inl (Error (''Workflow not found: '' @ workflowId)), w)
      | Some steps \<Rightarrow>
     (case db_write env w of
        (Some e, w1) \<Rightarrow> (Inl e, w1)
      | (None, w1) \<Rightarrow>
     (case db_write env w1 of
        (Some e, w2) \<Rightarrow> (Inl e, w2)
      | (None, w2) \<Rightarrow>
     (case run_steps env dryRun approve inp steps [] [] w2 of
        ((st, stepResults, errors), w3) \<Rightarrow>
     (case db_write env w3 of
        (Some e, w4) \<Rightarrow> (Inl e, w4)
      | (None, w4) \<Rightarrow>
          (Inr \<lparr> wr_runId = fresh, wr_workflowId = workflowId, wr_status = st,
                 wr_steps = stepResults,
                 wr_stepsCompleted = length (filter (\<lambda>s. sr_status s = StepCompleted) stepResults),
                 wr_stepsFailed = length (filter (\<lambda>s. sr_status s = StepFailed) stepResults),
                 wr_errors = errors \<rparr>, w4))))))"






definition mk_step :: "string \<Rightarrow> string \<Rightarrow> step" where
  "mk_step p a = \<lparr> plugin = p, action = a, config = [], requireApproval = None \<rparr>"




section \<open>Orchestrator (core/orchestrator/orchestrator.ts)\<close>

text \<open>
  The orchestrator with the two fields of its single-flight guard (\<open>isRunning\<close> is what
  its getter \<^verbatim>\<open>running\<close> returns), the workflows of its configuration, and the run
  records of its storage. The agents it initialises and the tasks it creates for the
  steps are left out: neither field depends on them.
\<close>

record run_record =
  rr_id :: string
  rr_workflowId :: string
  rr_status :: run_status

record orchestrator =
  isRunning :: bool
  currentRunId :: "string option"
  workflows :: "string \<rightharpoonup> step list"
  run_records :: "run_record list"

definition new_orchestrator :: "(string \<rightharpoonup> step list) \<Rightarrow> orchestrator" where
  "new_orchestrator wfs =
     \<lparr> isRunning = False, currentRunId = None, workflows = wfs, run_records = [] \<rparr>"

text \<open>\<^verbatim>\<open>db.runs.update(id, {status, ...})\<close>: every record of that id takes the status.\<close>

definition set_run_status :: "string \<Rightarrow> run_status \<Rightarrow> run_record list \<Rightarrow> run_record list" where
  "set_run_status i st rs = map (\<lambda>r. if rr_id r = i then r\<lparr>rr_status := st\<rparr> else r) rs"

text \<open>
  \<open>runWorkflow\<close> is an \<^verbatim>\<open>async\<close> method. A call of it runs until its first \<^verbatim>\<open>await\<close> and
  is then suspended; other calls on the orchestrator run while it is, and it goes on
  when what it awaits has settled. It awaits \<^verbatim>\<open>initializeAgents()\<close>, then
  \<^verbatim>\<open>executeStep\<close> for each step in turn, and, after its \<^verbatim>\<open>finally\<close> block,
  \<^verbatim>\<open>generateSummary\<close>. A suspended call is recorded with the id of its run, the place
  where it waits, and the errors it has gathered.
\<close>

datatype run_phase =
    AwaitAgents "step list"
  | AwaitStep step "step list"
  | AwaitSummary run_status

record suspended_call =
  call_runId :: string
  call_phase :: run_phase
  call_errors :: "string list"

record orchestrator_system =
  sys_orchestrator :: orchestrator
  sys_calls :: "suspended_call list"

definition new_system :: "(string \<rightharpoonup> step list) \<Rightarrow> orchestrator_system" where
  "new_system wfs = \<lparr> sys_orchestrator = new_orchestrator wfs, sys_calls = [] \<rparr>"

text \<open>The \<^verbatim>\<open>finally\<close> block of \<open>runWorkflow\<close>.\<close>

definition leave_try :: "orchestrator \<Rightarrow> orchestrator" where
  "leave_try orc = orc\<lparr> isRunning := False, currentRunId := None \<rparr>"

text \<open>
  The outer \<^verbatim>\<open>catch\<close> block with the \<^verbatim>\<open>finally\<close> block after it: the run is failed,
  the message recorded, and the call goes on to await the summary.
\<close>

definition catch_failure ::
  "orchestrator \<Rightarrow> string \<Rightarrow> string list \<Rightarrow> string \<Rightarrow> orchestrator \<times> suspended_call"
where
  "catch_failure orc rid errors msg =
     (leave_try orc,
      \<lparr> call_runId = rid, call_phase = AwaitSummary RunFailed, call_errors = errors @ [msg] \<rparr>)"

text \<open>
  The loop over the steps from the given ones on, up to its next \<^verbatim>\<open>await\<close>: with no
  step left the \<^verbatim>\<open>try\<close> block ends with status completed, and the \<^verbatim>\<open>finally\<close> block
  runs; otherwise \<^verbatim>\<open>executeStep\<close> is called for the first step and awaited.
\<close>

definition loop_from ::
  "orchestrator \<Rightarrow> string \<Rightarrow> step list \<Rightarrow> string list \<Rightarrow> orchestrator \<times> suspended_call"
where
  "loop_from orc rid steps errors =
     (case steps of
        [] \<Rightarrow>
          (leave_try orc,
           \<lparr> call_runId = rid, call_phase = AwaitSummary RunCompleted, call_errors = errors \<rparr>)
      | st # rest \<Rightarrow>
          (orc, \<lparr> call_runId = rid, call_phase = AwaitStep st rest, call_errors = errors \<rparr>))"

text \<open>
  A call of \<open>runWorkflow\<close>, up to its first \<^verbatim>\<open>await\<close>. \<open>fresh\<close> is the id \<^verbatim>\<open>nanoid()\<close>
  returns; \<open>create_error\<close> and \<open>update_error\<close> are what \<^verbatim>\<open>db.runs.create\<close> and the
  first \<^verbatim>\<open>db.runs.update\<close> throw, if they throw. The result is the error the call
  throws before any \<^verbatim>\<open>await\<close>, if it does. The flag is set before
  \<^verbatim>\<open>db.runs.create\<close>, which is outside the \<^verbatim>\<open>try\<close>: its error leaves the call with the
  flag set. The update is inside: its error is caught.
\<close>

definition runWorkflow ::
  "orchestrator_system \<Rightarrow> string \<Rightarrow> string \<Rightarrow> js_error option \<Rightarrow> js_error option
     \<Rightarrow> js_error option \<times> orchestrator_system"
where
  "runWorkflow sys workflowId fresh create_error update_error =
     (if isRunning (sys_orchestrator sys)
      then (Some (Error ''Orchestrator is already running a workflow''), sys)
      else
        (case workflows (sys_orchestrator sys) workflowId of
           None \<Rightarrow> (Some (Error (''Workflow not found: '' @ workflowId)), sys)
         | Some steps \<Rightarrow>
             (let flagged = (sys_orchestrator sys)\<lparr> currentRunId := Some fresh, isRunning := True \<rparr>
              in case create_error of
                   Some e \<Rightarrow> (Some e, sys\<lparr> sys_orchestrator := flagged \<rparr>)
                 | None \<Rightarrow>
                     (let created = flagged\<lparr> run_records := run_records flagged @
                            [\<lparr> rr_id = fresh, rr_workflowId = workflowId, rr_status = RunPending \<rparr>] \<rparr>
                      in case update_error of
                           Some (Error msg) \<Rightarrow>
                             (case catch_failure created fresh [] msg of
                                (orc, c) \<Rightarrow>
                                  (None, \<lparr> sys_orchestrator = orc, sys_calls = sys_calls sys @ [c] \<rparr>))
                         | None \<Rightarrow>
                             (None,
                              \<lparr> sys_orchestrator = created\<lparr> run_records :=
                                    set_run_status fresh RunRunning (run_records created) \<rparr>,
                                sys_calls = sys_calls sys @
                                  [\<lparr> call_runId = fresh, call_phase = AwaitAgents steps,
                                     call_errors = [] \<rparr>] \<rparr>)))))"

text \<open>
  How a suspended call ends: its promise is rejected with an error, or fulfilled with a
  \<^verbatim>\<open>RunResult\<close>, of which the status and the errors are kept.
\<close>

datatype call_end = Rejected js_error | Fulfilled run_status "string list"

text \<open>
  A suspended call goes on, up to its next \<^verbatim>\<open>await\<close> or its end. \<open>awaited\<close> is the error
  with which what it awaited was rejected, if it was; \<open>update_error\<close> is what the last
  \<^verbatim>\<open>db.runs.update\<close> throws, if it throws. An error of a step is recorded; that of an
  \<open>observe\<close> step is thrown on to the outer \<^verbatim>\<open>catch\<close>, which records its message once
  more.
\<close>

definition resume_call ::
  "orchestrator \<Rightarrow> suspended_call \<Rightarrow> js_error option \<Rightarrow> js_error option
     \<Rightarrow> orchestrator \<times> (suspended_call + call_end)"
where
  "resume_call orc c awaited update_error =
     (case call_phase c of
        AwaitAgents steps \<Rightarrow>
          (case awaited of
             Some (Error msg) \<Rightarrow> map_prod id Inl (catch_failure orc (call_runId c) (call_errors c) msg)
           | None \<Rightarrow> map_prod id Inl (loop_from orc (call_runId c) steps (call_errors c)))
      | AwaitStep st rest \<Rightarrow>
          (case awaited of
             Some (Error msg) \<Rightarrow>
               (let errors = call_errors c @
                      [''Step '' @ plugin st @ '':'' @ action st @ '' failed: '' @ msg]
                in if plugin st = ''observe''
                   then map_prod id Inl (catch_failure orc (call_runId c) errors msg)
                   else map_prod id Inl (loop_from orc (call_runId c) rest errors))
           | None \<Rightarrow> map_prod id Inl (loop_from orc (call_runId c) rest (call_errors c)))
      | AwaitSummary st \<Rightarrow>
          (case awaited of
             Some e \<Rightarrow> (orc, Inr (Rejected e))
           | None \<Rightarrow>
               (case update_error of
                  Some e \<Rightarrow> (orc, Inr (Rejected e))
                | None \<Rightarrow>
                    (orc\<lparr> run_records := set_run_status (call_runId c) st (run_records orc) \<rparr>,
                     Inr (Fulfilled st (call_errors c))))))"

text \<open>The suspended call of the run \<open>rid\<close> goes on; the others stay as they are.\<close>

fun resume_in ::
  "string \<Rightarrow> js_error option \<Rightarrow> js_error option \<Rightarrow> orchestrator \<Rightarrow> suspended_call list
     \<Rightarrow> orchestrator \<times> suspended_call list"
where
  "resume_in rid awaited update_error orc [] = (orc, [])"
| "resume_in rid awaited update_error orc (c # cs) =
     (if call_runId c = rid
      then (case resume_call orc c awaited update_error of
              (orc', Inl c') \<Rightarrow> (orc', c' # cs)
            | (orc', Inr _) \<Rightarrow> (orc', cs))
      else (case resume_in rid awaited update_error orc cs of
              (orc', cs') \<Rightarrow> (orc', c # cs')))"

definition resume ::
  "orchestrator_system \<Rightarrow> string \<Rightarrow> js_error option \<Rightarrow> js_error option \<Rightarrow> orchestrator_system"
where
  "resume sys rid awaited update_error =
     (case resume_in rid awaited update_error (sys_orchestrator sys) (sys_calls sys) of
        (orc, cs) \<Rightarrow> \<lparr> sys_orchestrator = orc, sys_calls = cs \<rparr>)"

text \<open>
  \<open>cancel\<close> of the orchestrator, which has no \<^verbatim>\<open>await\<close>. \<open>storage_error\<close> is what
  \<^verbatim>\<open>cancelRunTasks\<close> or \<^verbatim>\<open>db.runs.update\<close> throws, if one does: the fields are cleared
  after both. The suspended calls are not touched.
\<close>

definition cancel_run ::
  "orchestrator_system \<Rightarrow> js_error option \<Rightarrow> js_error option \<times> orchestrator_system"
where
  "cancel_run sys storage_error =
     (if \<not> isRunning (sys_orchestrator sys) then (None, sys)
      else
        (case truthy_str (currentRunId (sys_orchestrator sys)) of
           None \<Rightarrow> (None, sys)
         | Some rid \<Rightarrow>
             (case storage_error of
                Some e \<Rightarrow> (Some e, sys)
              | None \<Rightarrow>
                  (None,
                   sys\<lparr> sys_orchestrator := (sys_orchestrator sys)
                         \<lparr> run_records := set_run_status rid RunCancelled
                              (run_records (sys_orchestrator sys)),
                           isRunning := False, currentRunId := None \<rparr> \<rparr>))))"

text \<open>
  What happens to an orchestrator: calls of \<open>runWorkflow\<close> and of \<open>cancel\<close>, and suspended
  calls going on, one after the other.
\<close>

datatype orchestrator_event =
    CallRunWorkflow string string "js_error option" "js_error option"
  | Resume string "js_error option" "js_error option"
  | CallCancel "js_error option"

fun apply_event :: "orchestrator_system \<Rightarrow> orchestrator_event \<Rightarrow> orchestrator_system" where
  "apply_event sys (CallRunWorkflow workflowId fresh create_error update_error) =
     snd (runWorkflow sys workflowId fresh create_error update_error)"
| "apply_event sys (Resume rid awaited update_error) = resume sys rid awaited update_error"
| "apply_event sys (CallCancel storage_error) = snd (cancel_run sys storage_error)"

definition after_events ::
  "(string \<rightharpoonup> step list) \<Rightarrow> orchestrator_event list \<Rightarrow> orchestrator_system"
where
  "after_events wfs evs = foldl apply_event (new_system wfs) evs"

text \<open>
  A run is in progress while its call is inside the \<^verbatim>\<open>try\<close> block: it has been admitted
  and awaits the agents or a step.
\<close>

fun in_try :: "suspended_call \<Rightarrow> bool" where
  "in_try c = (case call_phase c of AwaitSummary _ \<Rightarrow> False | _ \<Rightarrow> True)"

definition runs_in_progress :: "orchestrator_system \<Rightarrow> string list" where
  "runs_in_progress sys = map call_runId (filter in_try (sys_calls sys))"

text \<open>
  What holds of the flag and the runs in progress as long as \<open>cancel\<close> is not called:
  the flag is set while a run is in progress, and at most one is.
\<close>

definition single_flight_inv :: "orchestrator_system \<Rightarrow> bool" where
  "single_flight_inv sys =
     ((filter in_try (sys_calls sys) \<noteq> [] \<longrightarrow> isRunning (sys_orchestrator sys)) \<and>
      length (filter in_try (sys_calls sys)) \<le> 1)"

fun is_cancel :: "orchestrator_event \<Rightarrow> bool" where
  "is_cancel (CallCancel _) = True"
| "is_cancel _ = False"

definition example_workflows :: "string \<rightharpoonup> step list" where
  "example_workflows =
     [''sentinel'' \<mapsto> [mk_step ''observe'' ''watch'', mk_step ''analyze'' ''score'']]"

section \<open>Properties of Task\<close>

lemmas task_defs = queue_def start_def complete_def fail_def cancel_def retry_def
  isTerminal_def canRetry_def

lemmas example_defs = example_config_def new_task_def truthy_str_def

lemma new_task_fields:
  "status (new_task c fresh now) = Pending" "retries (new_task c fresh now) = 0"
  "output (new_task c fresh now) = None" "error (new_task c fresh now) = None"
  by (simp_all add: new_task_def)

text \<open>
  Claim C1. A transition method called in a status that does not permit it throws the
  error of that method (the invalid-transition failure, a plain \<^verbatim>\<open>Error\<close> with the
  status in its message), and the task it leaves behind is the task it found: status,
  output, error, retries, agent, start and completion time are all as before.
\<close>

theorem task_illegal_transition_fails_unchanged:
  "(status t \<noteq> Pending \<longrightarrow>
      queue t = (Some (Error (''Cannot queue task in status: '' @ status_str (status t))), t)) \<and>
   (status t \<notin> {Pending, Queued} \<longrightarrow>
      start t agent now = (Some (Error (''Cannot start task in status: '' @ status_str (status t))), t)) \<and>
   (status t \<noteq> Running \<longrightarrow>
      complete t out now = (Some (Error (''Cannot complete task in status: '' @ status_str (status t))), t)) \<and>
   (status t \<noteq> Running \<longrightarrow>
      fail t err now = (Some (Error (''Cannot fail task in status: '' @ status_str (status t))), t)) \<and>
   (status t \<in> {Completed, Failed, Cancelled} \<longrightarrow>
      cancel t now = (Some (Error (''Cannot cancel task in status: '' @ status_str (status t))), t)) \<and>
   (\<not> (status t = Failed \<and> retries t < maxRetries t) \<longrightarrow>
      retry t = (Some (Error (''Cannot retry task: status='' @ status_str (status t) @
                         '', retries='' @ decimal (retries t) @ ''/'' @
                         decimal (maxRetries t))), t))"
  by (auto simp: task_defs)

theorem task_illegal_transition_witness:
  "status (run_ops (new_task example_config ''u1'' 100) [Start None 101, Complete [] 102]) = Completed \<and>
   queue (run_ops (new_task example_config ''u1'' 100) [Start None 101, Complete [] 102]) =
     (Some (Error ''Cannot queue task in status: completed''),
      run_ops (new_task example_config ''u1'' 100) [Start None 101, Complete [] 102]) \<and>
   start (run_ops (new_task example_config ''u1'' 100) [Start None 101, Complete [] 102]) (Some ''a1'') 103 =
     (Some (Error ''Cannot start task in status: completed''),
      run_ops (new_task example_config ''u1'' 100) [Start None 101, Complete [] 102]) \<and>
   complete (run_ops (new_task example_config ''u1'' 100) [Start None 101, Complete [] 102]) [] 103 =
     (Some (Error ''Cannot complete task in status: completed''),
      run_ops (new_task example_config ''u1'' 100) [Start None 101, Complete [] 102]) \<and>
   fail (run_ops (new_task example_config ''u1'' 100) [Start None 101, Complete [] 102]) ''late'' 103 =
     (Some (Error ''Cannot fail task in status: completed''),
      run_ops (new_task example_config ''u1'' 100) [Start None 101, Complete [] 102]) \<and>
   cancel (run_ops (new_task example_config ''u1'' 100) [Start None 101, Complete [] 102]) 103 =
     (Some (Error ''Cannot cancel task in status: completed''),
      run_ops (new_task example_config ''u1'' 100) [Start None 101, Complete [] 102]) \<and>
   retry (run_ops (new_task example_config ''u1'' 100) [Start None 101, Complete [] 102]) =
     (Some (Error ''Cannot retry task: status=completed, retries=0/2''),
      run_ops (new_task example_config ''u1'' 100) [Start None 101, Complete [] 102])"
  using task_illegal_transition_fails_unchanged
    [of "run_ops (new_task example_config ''u1'' 100) [Start None 101, Complete [] 102]" "Some ''a1''" 103 "[]" "''late''"]
  by (simp add: example_defs task_defs decimal.simps digit_char_def)

subsection \<open>The retry counter\<close>

lemma maxRetries_apply_op: "maxRetries (snd (apply_op t op)) = maxRetries t"
  by (cases op) (auto simp: task_defs Let_def split: option.splits)

lemma retries_apply_op:
  "retries (snd (apply_op t op)) = (if op = Retry \<and> canRetry t then retries t + 1 else retries t)"
  by (cases op) (auto simp: task_defs Let_def split: option.splits)

lemma maxRetries_run_ops: "maxRetries (run_ops t ops) = maxRetries t"
  by (induction ops arbitrary: t) (simp_all add: maxRetries_apply_op)

lemma retries_le_apply_op:
  "retries t \<le> maxRetries t \<Longrightarrow> retries (snd (apply_op t op)) \<le> maxRetries t"
  by (simp add: retries_apply_op canRetry_def)

lemma retries_le_run_ops:
  "retries t \<le> maxRetries t \<Longrightarrow> retries (run_ops t ops) \<le> maxRetries t"
proof (induction ops arbitrary: t)
  case Nil
  then show ?case by simp
next
  case (Cons op ops)
  have "retries (snd (apply_op t op)) \<le> maxRetries (snd (apply_op t op))"
    using Cons.prems by (simp add: retries_le_apply_op maxRetries_apply_op)
  from Cons.IH [OF this] show ?case by (simp add: maxRetries_apply_op)
qed

lemma retries_mono_run_ops: "retries t \<le> retries (run_ops t ops)"
proof (induction ops arbitrary: t)
  case Nil
  then show ?case by simp
next
  case (Cons op ops)
  have "retries t \<le> retries (snd (apply_op t op))" by (simp add: retries_apply_op)
  also have "\<dots> \<le> retries (run_ops (snd (apply_op t op)) ops)" by (rule Cons.IH)
  finally show ?case by simp
qed

lemma one_cycle:
  assumes "status t = Pending" "retries t < maxRetries t"
  shows "status (run_ops t [Start agent t1, Fail err t2, Retry]) = Pending \<and>
         retries (run_ops t [Start agent t1, Fail err t2, Retry]) = retries t + 1 \<and>
         maxRetries (run_ops t [Start agent t1, Fail err t2, Retry]) = maxRetries t"
  using assms by (auto simp: task_defs Let_def split: option.splits)

lemma run_ops_append: "run_ops t (xs @ ys) = run_ops (run_ops t xs) ys"
  by (induction xs arbitrary: t) simp_all

lemma cycles_retries:
  "status t = Pending \<Longrightarrow> retries t + length cs \<le> maxRetries t \<Longrightarrow>
     status (run_ops t (fail_retry_cycles cs)) = Pending \<and>
     retries (run_ops t (fail_retry_cycles cs)) = retries t + length cs"
proof (induction cs arbitrary: t)
  case Nil
  then show ?case by simp
next
  case (Cons c cs)
  obtain agent t1 err t2 where c: "c = (agent, t1, err, t2)" by (cases c) auto
  let ?t' = "run_ops t [Start agent t1, Fail err t2, Retry]"
  have lt: "retries t < maxRetries t" using Cons.prems by simp
  have st: "status ?t' = Pending" and rt: "retries ?t' = retries t + 1"
    and mt: "maxRetries ?t' = maxRetries t"
    using one_cycle [OF Cons.prems(1) lt] by blast+
  have "retries ?t' + length cs \<le> maxRetries ?t'" using Cons.prems rt mt by simp
  from Cons.IH [OF st this] rt
  have "status (run_ops ?t' (fail_retry_cycles cs)) = Pending \<and>
        retries (run_ops ?t' (fail_retry_cycles cs)) = retries t + length (c # cs)" by simp
  moreover have "run_ops t (fail_retry_cycles (c # cs)) = run_ops ?t' (fail_retry_cycles cs)"
    by (simp add: c)
  ultimately show ?case by simp
qed

text \<open>
  Claim C6. After any sequence of transition calls on a new task the retry counter is at
  most \<open>maxRetries\<close> (which never changes); after \<open>maxRetries\<close> successive rounds of
  start, fail and retry, \<open>canRetry\<close> is false, a further \<open>retry\<close> throws and leaves the
  task as it is, and \<open>canRetry\<close> stays false whatever is called later; \<open>fail\<close> does not
  touch the counter, which moves only by one on a \<open>retry\<close> that \<open>canRetry\<close> permits.
\<close>

theorem task_retry_bound:
  "retries (run_ops (new_task c fresh now) ops) \<le> maxRetries (run_ops (new_task c fresh now) ops) \<and>
   maxRetries (run_ops (new_task c fresh now) ops) = maxRetries (new_task c fresh now) \<and>
   (length cs = maxRetries (new_task c fresh now) \<longrightarrow>
      \<not> canRetry (run_ops (new_task c fresh now) (fail_retry_cycles cs)) \<and>
      fst (retry (run_ops (new_task c fresh now) (fail_retry_cycles cs))) \<noteq> None \<and>
      snd (retry (run_ops (new_task c fresh now) (fail_retry_cycles cs))) =
        run_ops (new_task c fresh now) (fail_retry_cycles cs) \<and>
      \<not> canRetry (run_ops (new_task c fresh now) (fail_retry_cycles cs @ ops))) \<and>
   retries (snd (fail t err now')) = retries t \<and>
   retries (snd (apply_op t op)) = (if op = Retry \<and> canRetry t then retries t + 1 else retries t)"
proof -
  let ?init = "new_task c fresh now"
  have le0: "retries ?init \<le> maxRetries ?init" by (simp add: new_task_fields)
  have a: "retries (run_ops ?init ops) \<le> maxRetries (run_ops ?init ops)"
    using retries_le_run_ops [OF le0] by (simp add: maxRetries_run_ops)
  have b: "maxRetries (run_ops ?init ops) = maxRetries ?init" by (rule maxRetries_run_ops)
  have c: "\<not> canRetry (run_ops ?init (fail_retry_cycles cs)) \<and>
      fst (retry (run_ops ?init (fail_retry_cycles cs))) \<noteq> None \<and>
      snd (retry (run_ops ?init (fail_retry_cycles cs))) = run_ops ?init (fail_retry_cycles cs) \<and>
      \<not> canRetry (run_ops ?init (fail_retry_cycles cs @ ops))"
    if len: "length cs = maxRetries ?init"
  proof -
    let ?t = "run_ops ?init (fail_retry_cycles cs)"
    have "retries ?t = retries ?init + length cs"
      using cycles_retries [where t = ?init and cs = cs] len by (simp add: new_task_fields)
    then have full: "retries ?t = maxRetries ?t" using len by (simp add: new_task_fields maxRetries_run_ops)
    then have nc: "\<not> canRetry ?t" by (simp add: canRetry_def)
    have "retries ?t \<le> retries (run_ops ?t ops)" by (rule retries_mono_run_ops)
    moreover have "retries (run_ops ?t ops) \<le> maxRetries ?t"
      using retries_le_run_ops [of ?t ops] full by simp
    ultimately have "retries (run_ops ?t ops) = maxRetries (run_ops ?t ops)"
      using full by (simp add: maxRetries_run_ops)
    then have "\<not> canRetry (run_ops ?t ops)" by (simp add: canRetry_def)
    then show ?thesis using nc by (simp add: retry_def run_ops_append)
  qed
  have d: "retries (snd (fail t err now')) = retries t" by (simp add: fail_def)
  show ?thesis using a b c d retries_apply_op by blast
qed

theorem task_retry_bound_witness:
  "length [(None, 1, ''e1'', 2), (None, 3, ''e2'', 4)] = maxRetries (new_task example_config ''u1'' 100) \<and>
   retries (run_ops (new_task example_config ''u1'' 100)
              (fail_retry_cycles [(None, 1, ''e1'', 2), (None, 3, ''e2'', 4)])) = 2 \<and>
   \<not> canRetry (run_ops (new_task example_config ''u1'' 100)
              (fail_retry_cycles [(None, 1, ''e1'', 2), (None, 3, ''e2'', 4)])) \<and>
   fst (retry (run_ops (new_task example_config ''u1'' 100)
              (fail_retry_cycles [(None, 1, ''e1'', 2), (None, 3, ''e2'', 4)]))) \<noteq> None \<and>
   \<not> canRetry (run_ops (new_task example_config ''u1'' 100)
              (fail_retry_cycles [(None, 1, ''e1'', 2), (None, 3, ''e2'', 4)] @ [Start None 5, Fail ''e3'' 6]))"
  using task_retry_bound [of example_config "''u1''" 100 "[Start None 5, Fail ''e3'' 6]"
      "[(None, 1, ''e1'', 2), (None, 3, ''e2'', 4)]"]
  by (simp add: example_defs task_defs)

text \<open>
  The scenario of the unit test ``should not retry beyond max attempts'': with
  \<open>maxRetries = 3\<close>, three failures with a retry after the first two. Two retries are
  used up, so a third is still permitted; the test expects \<open>canRetry\<close> to be false here.
\<close>

lemma canRetry_after_three_failures_two_retries:
  "canRetry (run_ops (new_task (example_config\<lparr>cfg_maxRetries := Some 3\<rparr>) ''u1'' 100)
     (fail_retry_cycles [(None, 1, ''Error'', 2), (None, 3, ''Error'', 4)] @
      [Start None 5, Fail ''Error'' 6]))"
  by (simp add: example_defs task_defs)

subsection \<open>Output and error in terminal states\<close>

lemma task_result_inv_apply_op:
  "task_result_inv t \<Longrightarrow> task_result_inv (snd (apply_op t op))"
  by (cases op; cases "status t")
     (auto simp: task_defs task_result_inv_def Let_def split: option.splits)

lemma task_result_inv_run_ops:
  "task_result_inv t \<Longrightarrow> task_result_inv (run_ops t ops)"
  by (induction ops arbitrary: t) (simp_all add: task_result_inv_apply_op)

text \<open>
  Claim C8, as amended. In every state a new task can reach: a completed task has its
  output set and no error, a failed task has its error set and no output, and a
  cancelled task has neither (\<open>cancel\<close> records only the status and the completion time).
\<close>

theorem task_terminal_output_error:
  "(status (run_ops (new_task c fresh now) ops) = Completed \<longrightarrow>
      output (run_ops (new_task c fresh now) ops) \<noteq> None \<and>
      error (run_ops (new_task c fresh now) ops) = None) \<and>
   (status (run_ops (new_task c fresh now) ops) = Failed \<longrightarrow>
      output (run_ops (new_task c fresh now) ops) = None \<and>
      error (run_ops (new_task c fresh now) ops) \<noteq> None) \<and>
   (status (run_ops (new_task c fresh now) ops) = Cancelled \<longrightarrow>
      output (run_ops (new_task c fresh now) ops) = None \<and>
      error (run_ops (new_task c fresh now) ops) = None)"
proof -
  have "task_result_inv (new_task c fresh now)"
    by (simp add: task_result_inv_def new_task_fields)
  then have "task_result_inv (run_ops (new_task c fresh now) ops)"
    by (rule task_result_inv_run_ops)
  then show ?thesis
    by (cases "status (run_ops (new_task c fresh now) ops)") (simp_all add: task_result_inv_def)
qed

theorem task_terminal_output_error_witness:
  "status (run_ops (new_task example_config ''u1'' 100) [Start None 101, Complete [(''k'', ''v'')] 102]) = Completed \<and>
   output (run_ops (new_task example_config ''u1'' 100) [Start None 101, Complete [(''k'', ''v'')] 102]) = Some [(''k'', ''v'')] \<and>
   error (run_ops (new_task example_config ''u1'' 100) [Start None 101, Complete [(''k'', ''v'')] 102]) = None \<and>
   status (run_ops (new_task example_config ''u1'' 100) [Start None 101, Fail ''boom'' 102]) = Failed \<and>
   output (run_ops (new_task example_config ''u1'' 100) [Start None 101, Fail ''boom'' 102]) = None \<and>
   error (run_ops (new_task example_config ''u1'' 100) [Start None 101, Fail ''boom'' 102]) = Some ''boom'' \<and>
   status (run_ops (new_task example_config ''u1'' 100) [Queue, Cancel 103]) = Cancelled \<and>
   output (run_ops (new_task example_config ''u1'' 100) [Queue, Cancel 103]) = None \<and>
   error (run_ops (new_task example_config ''u1'' 100) [Queue, Cancel 103]) = None"
  using task_terminal_output_error [of example_config "''u1''" 100 "[Start None 101, Complete [(''k'', ''v'')] 102]"]
    task_terminal_output_error [of example_config "''u1''" 100 "[Start None 101, Fail ''boom'' 102]"]
    task_terminal_output_error [of example_config "''u1''" 100 "[Queue, Cancel 103]"]
  by (simp add: example_defs task_defs)

text \<open>
  Claim C8 as stated fails on a cancelled task: a new task that is cancelled at once is
  terminal with neither output nor error set.
\<close>

theorem cancelled_task_sets_neither:
  "isTerminal (run_ops (new_task example_config ''u1'' 100) [Cancel 101]) \<and>
   status (run_ops (new_task example_config ''u1'' 100) [Cancel 101]) = Cancelled \<and>
   \<not> exactly_one_set (run_ops (new_task example_config ''u1'' 100) [Cancel 101])"
  by (simp add: example_defs task_defs exactly_one_set_def)

section \<open>Properties of the circuit breaker and the rate limiter\<close>

lemmas breaker_defs = execute_def onSuccess_def onFailure_def reset_def new_circuit_breaker_def

lemma tripped_breaker_eq:
  "tripped_breaker =
     \<lparr> state = OPEN, failures = 2, lastFailureTime = 2, halfOpenSuccesses = 0,
       failureThreshold = 2, resetTimeoutMs = 1000, halfOpenRequests = 1 \<rparr>"
  by (simp add: tripped_breaker_def example_options_def failing_call_def breaker_defs)

lemma example_limiter_eq:
  "example_limiter = \<lparr> requests = [1000], maxRequests = 5, windowMs = 1000 \<rparr>"
  by (simp add: example_limiter_def acquire_def new_rate_limiter_def cleanup_def)

lemma execute_closed_failure:
  assumes "state cb = CLOSED" "always_fails fn"
  shows "fst (snd (execute clock cb fn w)) =
           (if int (failures cb) + 1 \<ge> failureThreshold cb
            then cb\<lparr>failures := failures cb + 1, lastFailureTime := clock (snd (fn w)), state := OPEN\<rparr>
            else cb\<lparr>failures := failures cb + 1, lastFailureTime := clock (snd (fn w))\<rparr>)"
proof -
  obtain e w' where "fn w = (Inl e, w')"
    using assms(2) by (cases "fn w"; cases "fst (fn w)") (auto simp: always_fails_def dest: spec [of _ w])
  then show ?thesis using assms(1) by (simp add: execute_def onFailure_def Let_def)
qed

lemma run_calls_append:
  "run_calls clock cb (xs @ ys) w =
     (case run_calls clock cb xs w of (cb', w') \<Rightarrow> run_calls clock cb' ys w')"
  by (induction clock cb xs w rule: run_calls.induct) (auto split: prod.splits)

lemma failures_below_threshold:
  "state cb = CLOSED \<Longrightarrow> \<forall>fn \<in> set fns. always_fails fn \<Longrightarrow>
   int (failures cb) + int (length fns) < failureThreshold cb \<Longrightarrow>
     state (fst (run_calls clock cb (map Execute fns) w)) = CLOSED \<and>
     failures (fst (run_calls clock cb (map Execute fns) w)) = failures cb + length fns \<and>
     failureThreshold (fst (run_calls clock cb (map Execute fns) w)) = failureThreshold cb"
proof (induction fns arbitrary: cb w)
  case Nil
  then show ?case by simp
next
  case (Cons fn fns)
  obtain r cb' w' where ex: "execute clock cb fn w = (r, cb', w')" by (cases "execute clock cb fn w") auto
  have af: "always_fails fn" using Cons.prems(2) by simp
  have "cb' = fst (snd (execute clock cb fn w))" using ex by simp
  then have cb': "cb' = cb\<lparr>failures := failures cb + 1, lastFailureTime := clock (snd (fn w))\<rparr>"
    using execute_closed_failure [OF Cons.prems(1) af, of clock w] Cons.prems(3) by simp
  have "state cb' = CLOSED" "\<forall>fn \<in> set fns. always_fails fn"
    "int (failures cb') + int (length fns) < failureThreshold cb'"
    using cb' Cons.prems by simp_all
  from Cons.IH [OF this, of w'] show ?case using ex cb' by simp
qed

lemma threshold_failures_open:
  assumes thr: "1 \<le> opt_failureThreshold opts"
    and len: "int (length fns) = opt_failureThreshold opts"
    and af: "\<forall>fn \<in> set fns. always_fails fn"
  shows "state (fst (run_calls clock (new_circuit_breaker opts) (map Execute fns) w)) = OPEN"
proof -
  let ?cb = "new_circuit_breaker opts"
  have ne: "fns \<noteq> []" using thr len by auto
  then obtain gs g where fns: "fns = gs @ [g]" by (metis rev_exhaust)
  obtain cb1 w1 where r1: "run_calls clock ?cb (map Execute gs) w = (cb1, w1)"
    by (cases "run_calls clock ?cb (map Execute gs) w") auto
  have "state ?cb = CLOSED" "\<forall>fn \<in> set gs. always_fails fn"
    "int (failures ?cb) + int (length gs) < failureThreshold ?cb"
    using af len fns by (simp_all add: new_circuit_breaker_def)
  from failures_below_threshold [OF this, of clock w] r1
  have cb1: "state cb1 = CLOSED" "failures cb1 = length gs" "failureThreshold cb1 = opt_failureThreshold opts"
    by (simp_all add: new_circuit_breaker_def)
  have g: "always_fails g" using af fns by simp
  obtain r cb2 w2 where ex: "execute clock cb1 g w1 = (r, cb2, w2)"
    by (cases "execute clock cb1 g w1") auto
  have "state (fst (snd (execute clock cb1 g w1))) = OPEN"
    using execute_closed_failure [OF cb1(1) g, of clock w1] cb1 len fns by simp
  then have "state cb2 = OPEN" using ex by simp
  moreover have "run_calls clock ?cb (map Execute fns) w = (cb2, w2)"
    using r1 ex by (simp add: fns run_calls_append)
  ultimately show ?thesis by simp
qed

text \<open>
  Claim C5. A new breaker with threshold at least one is open after as many failing calls
  as its threshold. A call on an open breaker before the reset timeout has elapsed since
  the last failure throws ``Circuit breaker is open'' (the CircuitOpenError), leaves
  breaker and world as they are, and so never applies the guarded function. Once the
  timeout has elapsed the call is the call on the same breaker made half-open, and the
  guarded function is applied. With \<open>halfOpenRequests = 1\<close> one success while half-open
  closes the breaker (also when the call itself made it half-open); a failure while
  half-open opens it and sets the last failure time to the clock reading at the failure.
\<close>

theorem circuit_breaker_cycle:
  "(1 \<le> opt_failureThreshold opts \<and> int (length fns) = opt_failureThreshold opts \<and>
      (\<forall>f \<in> set fns. always_fails f) \<longrightarrow>
        state (fst (run_calls clock (new_circuit_breaker opts) (map Execute fns) w)) = OPEN) \<and>
   (state cb = OPEN \<and> clock w - lastFailureTime cb < resetTimeoutMs cb \<longrightarrow>
        execute clock cb fn w = (Inl (Error ''Circuit breaker is open''), cb, w)) \<and>
   (state cb = OPEN \<and> clock w - lastFailureTime cb \<ge> resetTimeoutMs cb \<longrightarrow>
        execute clock cb fn w =
          execute clock (cb\<lparr>state := HALF_OPEN, halfOpenSuccesses := 0\<rparr>) fn w \<and>
        snd (snd (execute clock cb fn w)) = snd (fn w)) \<and>
   (state cb = HALF_OPEN \<and> halfOpenRequests cb = 1 \<and> fn w = (Inr v, w') \<longrightarrow>
        execute clock cb fn w =
          (Inr v, cb\<lparr>halfOpenSuccesses := halfOpenSuccesses cb + 1, state := CLOSED, failures := 0\<rparr>, w')) \<and>
   (state cb = OPEN \<and> clock w - lastFailureTime cb \<ge> resetTimeoutMs cb \<and>
      halfOpenRequests cb = 1 \<and> fn w = (Inr v, w') \<longrightarrow>
        state (fst (snd (execute clock cb fn w))) = CLOSED) \<and>
   (state cb = HALF_OPEN \<and> fn w = (Inl e, w') \<longrightarrow>
        execute clock cb fn w =
          (Inl e, cb\<lparr>failures := failures cb + 1, lastFailureTime := clock w', state := OPEN\<rparr>, w'))"
proof -
  have a: "state (fst (run_calls clock (new_circuit_breaker opts) (map Execute fns) w)) = OPEN"
    if "1 \<le> opt_failureThreshold opts" "int (length fns) = opt_failureThreshold opts"
       "\<forall>f \<in> set fns. always_fails f"
    using threshold_failures_open [OF that] .
  have b: "execute clock cb fn w = (Inl (Error ''Circuit breaker is open''), cb, w)"
    if "state cb = OPEN" "clock w - lastFailureTime cb < resetTimeoutMs cb"
    using that by (simp add: execute_def)
  have c: "execute clock cb fn w =
          execute clock (cb\<lparr>state := HALF_OPEN, halfOpenSuccesses := 0\<rparr>) fn w \<and>
        snd (snd (execute clock cb fn w)) = snd (fn w)"
    if "state cb = OPEN" "clock w - lastFailureTime cb \<ge> resetTimeoutMs cb"
    using that by (cases "fn w"; cases "fst (fn w)") (auto simp: execute_def Let_def)
  have d: "execute clock cb fn w =
          (Inr v, cb\<lparr>halfOpenSuccesses := halfOpenSuccesses cb + 1, state := CLOSED, failures := 0\<rparr>, w')"
    if "state cb = HALF_OPEN" "halfOpenRequests cb = 1" "fn w = (Inr v, w')"
    using that by (simp add: execute_def onSuccess_def Let_def)
  have e: "state (fst (snd (execute clock cb fn w))) = CLOSED"
    if "state cb = OPEN" "clock w - lastFailureTime cb \<ge> resetTimeoutMs cb"
       "halfOpenRequests cb = 1" "fn w = (Inr v, w')"
    using that by (simp add: execute_def onSuccess_def Let_def)
  have f: "execute clock cb fn w =
          (Inl e, cb\<lparr>failures := failures cb + 1, lastFailureTime := clock w', state := OPEN\<rparr>, w')"
    if "state cb = HALF_OPEN" "fn w = (Inl e, w')"
    using that by (simp add: execute_def onFailure_def Let_def)
  show ?thesis using a b c d e f by blast
qed

theorem circuit_breaker_cycle_witness:
  "1 \<le> opt_failureThreshold example_options \<and>
   int (length [failing_call, failing_call]) = opt_failureThreshold example_options \<and>
   always_fails failing_call \<and>
   state (fst (run_calls (\<lambda>w. w) (new_circuit_breaker example_options)
                 (map Execute [failing_call, failing_call]) 0)) = OPEN \<and>
   state tripped_breaker = OPEN \<and>
   execute (\<lambda>w. w) tripped_breaker working_call 500 =
     (Inl (Error ''Circuit breaker is open''), tripped_breaker, 500) \<and>
   execute (\<lambda>w. w) tripped_breaker working_call 1002 =
     (Inr ''ok'', tripped_breaker\<lparr>state := CLOSED, failures := 0, halfOpenSuccesses := 1\<rparr>, 1003) \<and>
   execute (\<lambda>w. w) (tripped_breaker\<lparr>state := HALF_OPEN\<rparr>) working_call 1002 =
     (Inr ''ok'', tripped_breaker\<lparr>state := CLOSED, failures := 0, halfOpenSuccesses := 1\<rparr>, 1003) \<and>
   execute (\<lambda>w. w) (tripped_breaker\<lparr>state := HALF_OPEN\<rparr>) failing_call 1002 =
     (Inl (Error ''down''), tripped_breaker\<lparr>failures := 3, lastFailureTime := 1003\<rparr>, 1003)"
  using circuit_breaker_cycle [where opts = example_options and fns = "[failing_call, failing_call]"
      and cb = tripped_breaker and clock = "\<lambda>w. w" and w = 500 and fn = working_call
      and v = "''ok''" and w' = 501 and e = "Error ''x''"]
    circuit_breaker_cycle [where opts = example_options and fns = "[failing_call, failing_call]"
      and cb = tripped_breaker and clock = "\<lambda>w. w" and w = 1002 and fn = working_call
      and v = "''ok''" and w' = 1003 and e = "Error ''x''"]
    circuit_breaker_cycle [where opts = example_options and fns = "[failing_call, failing_call]"
      and cb = "tripped_breaker\<lparr>state := HALF_OPEN\<rparr>" and clock = "\<lambda>w. w" and w = 1002
      and fn = working_call and v = "''ok''" and w' = 1003 and e = "Error ''x''"]
    circuit_breaker_cycle [where opts = example_options and fns = "[failing_call, failing_call]"
      and cb = "tripped_breaker\<lparr>state := HALF_OPEN\<rparr>" and clock = "\<lambda>w. w" and w = 1002
      and fn = failing_call and v = "''ok''" and w' = 1003 and e = "Error ''down''"]
  by (simp add: tripped_breaker_eq example_options_def failing_call_def working_call_def
      always_fails_def breaker_defs)

lemma failureThreshold_execute:
  "failureThreshold (fst (snd (execute clock cb fn w))) = failureThreshold cb"
  by (cases "fn w"; cases "fst (fn w)") (auto simp: execute_def onSuccess_def onFailure_def Let_def)

lemma breaker_inv_execute:
  "1 \<le> failureThreshold cb \<Longrightarrow> breaker_inv cb \<Longrightarrow> breaker_inv (fst (snd (execute clock cb fn w)))"
  by (cases "fn w"; cases "fst (fn w)")
     (auto simp: breaker_inv_def execute_def onSuccess_def onFailure_def Let_def)

lemma breaker_inv_reset: "1 \<le> failureThreshold cb \<Longrightarrow> breaker_inv (reset cb)"
  by (simp add: breaker_inv_def reset_def)

lemma breaker_inv_run_calls:
  "1 \<le> failureThreshold cb \<Longrightarrow> breaker_inv cb \<Longrightarrow>
     breaker_inv (fst (run_calls clock cb calls w))"
proof (induction clock cb calls w rule: run_calls.induct)
  case (1 clock cb w)
  then show ?case by simp
next
  case (2 clock cb fn cs w)
  obtain r cb' w' where ex: "execute clock cb fn w = (r, cb', w')"
    by (cases "execute clock cb fn w") auto
  have "cb' = fst (snd (execute clock cb fn w))" using ex by simp
  then have "1 \<le> failureThreshold cb'" "breaker_inv cb'"
    using "2.prems" by (simp_all add: failureThreshold_execute breaker_inv_execute)
  then have "breaker_inv (fst (run_calls clock cb' cs w'))"
    using "2.IH" [OF ex [symmetric] refl] by simp
  then show ?case using ex by simp
next
  case (3 clock cb cs w)
  have "1 \<le> failureThreshold (reset cb)" "breaker_inv (reset cb)"
    using "3.prems" by (simp_all add: reset_def breaker_inv_def)
  from "3.IH" [OF this] show ?case by simp
qed

text \<open>
  Claim C10. For a breaker with \<open>failureThreshold \<ge> 1\<close>, ``closed implies
  \<open>failures < failureThreshold\<close>'' holds of the new breaker, is kept by every \<open>execute\<close>
  (whether the guarded function returns or throws, or the call is refused) and by
  every \<open>reset\<close>, and so holds after any sequence of calls.
\<close>

theorem breaker_closed_failures_below_threshold:
  "(1 \<le> opt_failureThreshold opts \<longrightarrow> breaker_inv (new_circuit_breaker opts)) \<and>
   (1 \<le> failureThreshold cb \<and> breaker_inv cb \<longrightarrow>
      breaker_inv (fst (snd (execute clock cb fn w))) \<and>
      failureThreshold (fst (snd (execute clock cb fn w))) = failureThreshold cb) \<and>
   (1 \<le> failureThreshold cb \<longrightarrow>
      breaker_inv (reset cb) \<and> failureThreshold (reset cb) = failureThreshold cb) \<and>
   (1 \<le> opt_failureThreshold opts \<longrightarrow>
      breaker_inv (fst (run_calls clock (new_circuit_breaker opts) calls w)))"
proof -
  have init: "breaker_inv (new_circuit_breaker opts)" if "1 \<le> opt_failureThreshold opts"
    using that by (simp add: breaker_inv_def new_circuit_breaker_def)
  have run: "breaker_inv (fst (run_calls clock (new_circuit_breaker opts) calls w))"
    if "1 \<le> opt_failureThreshold opts"
    using breaker_inv_run_calls [of "new_circuit_breaker opts" clock calls w] init that
    by (simp add: new_circuit_breaker_def)
  have step: "breaker_inv (fst (snd (execute clock cb fn w))) \<and>
      failureThreshold (fst (snd (execute clock cb fn w))) = failureThreshold cb"
    if "1 \<le> failureThreshold cb" "breaker_inv cb"
    using that by (simp add: breaker_inv_execute failureThreshold_execute)
  have rst: "breaker_inv (reset cb) \<and> failureThreshold (reset cb) = failureThreshold cb"
    if "1 \<le> failureThreshold cb"
    using that by (simp add: breaker_inv_reset) (simp add: reset_def)
  show ?thesis using init run step rst by blast
qed

theorem breaker_closed_failures_below_threshold_witness:
  "1 \<le> opt_failureThreshold example_options \<and>
   breaker_inv (new_circuit_breaker example_options) \<and>
   1 \<le> failureThreshold tripped_breaker \<and> breaker_inv tripped_breaker \<and>
   state (fst (snd (execute (\<lambda>w. w) tripped_breaker working_call 1002))) = CLOSED \<and>
   failures (fst (snd (execute (\<lambda>w. w) tripped_breaker working_call 1002))) = 0 \<and>
   breaker_inv (fst (snd (execute (\<lambda>w. w) tripped_breaker working_call 1002))) \<and>
   breaker_inv (reset tripped_breaker) \<and>
   breaker_inv (fst (run_calls (\<lambda>w. w) (new_circuit_breaker example_options)
                       [Execute failing_call, Reset, Execute working_call] 1002))"
  using breaker_closed_failures_below_threshold [where opts = example_options
      and cb = tripped_breaker and clock = "\<lambda>w. w" and fn = working_call and w = 1002
      and calls = "[Execute failing_call, Reset, Execute working_call]"]
  by (simp add: tripped_breaker_eq example_options_def working_call_def failing_call_def
      breaker_inv_def breaker_defs)

lemma cleanup_cleanup: "now \<le> now' \<Longrightarrow> cleanup (cleanup rl now) now' = cleanup rl now'"
proof -
  assume le: "now \<le> now'"
  have "filter (\<lambda>t. now - t < windowMs rl \<and> now' - t < windowMs rl) (requests rl) =
        filter (\<lambda>t. now' - t < windowMs rl) (requests rl)"
    using le by (intro filter_cong) auto
  then show ?thesis by (simp add: cleanup_def)
qed

text \<open>
  Claim C9, as amended. \<open>remaining\<close> returns \<open>maxRequests\<close> minus the number of recorded
  timestamps within the window, floored at 0. It changes nothing but the list of
  recorded timestamps, from which it drops those outside the window (nothing at all
  when none has expired), and a later \<open>remaining\<close> or \<open>acquire\<close> whose clock reading is
  not earlier gives the same result and the same limiter as without the call.
\<close>

theorem remaining_prunes_expired_only:
  "fst (remaining rl now) =
     max 0 (maxRequests rl - int (length (filter (\<lambda>t. now - t < windowMs rl) (requests rl)))) \<and>
   snd (remaining rl now) = rl\<lparr>requests := filter (\<lambda>t. now - t < windowMs rl) (requests rl)\<rparr> \<and>
   ((\<forall>t \<in> set (requests rl). now - t < windowMs rl) \<longrightarrow> snd (remaining rl now) = rl) \<and>
   (now \<le> now' \<longrightarrow> remaining (snd (remaining rl now)) now' = remaining rl now') \<and>
   (now \<le> n1 \<longrightarrow> acquire (snd (remaining rl now)) n1 n2 n3 n4 = acquire rl n1 n2 n3 n4)"
proof -
  have a: "snd (remaining rl now) = cleanup rl now" by (simp add: remaining_def Let_def)
  have b: "snd (remaining rl now) = rl" if "\<forall>t \<in> set (requests rl). now - t < windowMs rl"
    using that by (simp add: a cleanup_def)
  have c: "remaining (snd (remaining rl now)) now' = remaining rl now'" if "now \<le> now'"
    using cleanup_cleanup [OF that, of rl] by (simp add: a remaining_def Let_def)
  have d: "acquire (snd (remaining rl now)) n1 n2 n3 n4 = acquire rl n1 n2 n3 n4" if "now \<le> n1"
    using cleanup_cleanup [OF that, of rl] by (simp add: a acquire_def Let_def)
  show ?thesis using b c d by (simp add: remaining_def cleanup_def Let_def)
qed

theorem remaining_prunes_expired_only_witness:
  "fst (remaining example_limiter 1500) = 4 \<and>
   snd (remaining example_limiter 1500) = example_limiter \<and>
   fst (remaining example_limiter 2500) = 5 \<and>
   requests (snd (remaining example_limiter 2500)) = [] \<and>
   (2500::int) \<le> 2600 \<and>
   remaining (snd (remaining example_limiter 2500)) 2600 = remaining example_limiter 2600 \<and>
   acquire (snd (remaining example_limiter 2500)) 2600 2600 2600 2600 =
     acquire example_limiter 2600 2600 2600 2600"
  using remaining_prunes_expired_only [where rl = example_limiter and now = 1500 and now' = 1500
      and ?n1.0 = 1500 and ?n2.0 = 1500 and ?n3.0 = 1500 and ?n4.0 = 1500]
    remaining_prunes_expired_only [where rl = example_limiter and now = 2500 and now' = 2600
      and ?n1.0 = 2600 and ?n2.0 = 2600 and ?n3.0 = 2600 and ?n4.0 = 2600]
  by (simp add: example_limiter_eq remaining_def cleanup_def acquire_def)

text \<open>
  Claim C9 as stated fails: \<open>remaining\<close> runs \<open>cleanup\<close>, which rewrites the list of
  requests. A limiter holding one request from time 1000, asked at time 2500, is left
  with an empty list.
\<close>

theorem remaining_drops_expired_request:
  "requests example_limiter = [1000] \<and>
   requests (snd (remaining example_limiter 2500)) = [] \<and>
   snd (remaining example_limiter 2500) \<noteq> example_limiter"
  by (simp add: example_limiter_eq remaining_def cleanup_def)

section \<open>Properties of the task manager\<close>

lemma cancel_live: "\<not> isTerminal t \<Longrightarrow> cancel t now = (None, cancelled_at now t)"
  by (simp add: cancel_def cancelled_at_def)

lemma cancel_each_result:
  "cancel_each tm now ids n =
     (Inr (n + card {i \<in> set ids. live tm i}),
      tm\<lparr>tasks := (\<lambda>i. if i \<in> set ids \<and> live tm i
                        then map_option (cancelled_at (now i)) (tasks tm i)
                        else tasks tm i)\<rparr>)"
proof (induction ids arbitrary: tm n)
  case Nil
  then show ?case by simp
next
  case (Cons i ids)
  show ?case
  proof (cases "live tm i")
    case False
    then have eq: "{j \<in> set (i # ids). live tm j} = {j \<in> set ids. live tm j}" by auto
    have fn: "(\<lambda>j. if j \<in> set (i # ids) \<and> live tm j
                 then map_option (cancelled_at (now j)) (tasks tm j) else tasks tm j) =
              (\<lambda>j. if j \<in> set ids \<and> live tm j
                 then map_option (cancelled_at (now j)) (tasks tm j) else tasks tm j)"
      using False by auto
    have "cancel_each tm now (i # ids) n = cancel_each tm now ids n"
      using False by (simp add: live_def split: option.splits)
    then show ?thesis unfolding eq fn by (simp add: Cons.IH)
  next
    case True
    then obtain t where t: "tasks tm i = Some t" "\<not> isTerminal t"
      by (auto simp: live_def split: option.splits)
    let ?tm1 = "tm\<lparr>tasks := (tasks tm)(i \<mapsto> cancelled_at (now i) t)\<rparr>"
    have ended: "isTerminal (cancelled_at (now i) t)"
      by (simp add: isTerminal_def cancelled_at_def)
    have live1: "live ?tm1 j = (j \<noteq> i \<and> live tm j)" for j
      using ended by (simp add: live_def)
    have step: "cancel_each tm now (i # ids) n = cancel_each ?tm1 now ids (n + 1)"
      using t by (simp add: cancel_live)
    have fin: "finite {j \<in> set ids. j \<noteq> i \<and> live tm j}" by simp
    have "{j \<in> set (i # ids). live tm j} = insert i {j \<in> set ids. j \<noteq> i \<and> live tm j}"
      using True by auto
    then have card: "card {j \<in> set (i # ids). live tm j} =
        Suc (card {j \<in> set ids. j \<noteq> i \<and> live tm j})"
      using fin by simp
    have fn: "(\<lambda>j. if j \<in> set ids \<and> live ?tm1 j
                 then map_option (cancelled_at (now j)) (tasks ?tm1 j) else tasks ?tm1 j) =
              (\<lambda>j. if j \<in> set (i # ids) \<and> live tm j
                 then map_option (cancelled_at (now j)) (tasks tm j) else tasks tm j)"
      using t True by (auto simp: live1 fun_eq_iff)
    have "cancel_each ?tm1 now ids (n + 1) =
       (Inr (n + 1 + card {j \<in> set ids. live ?tm1 j}),
        ?tm1\<lparr>tasks := (\<lambda>j. if j \<in> set ids \<and> live ?tm1 j
                 then map_option (cancelled_at (now j)) (tasks ?tm1 j) else tasks ?tm1 j)\<rparr>)"
      by (rule Cons.IH)
    then show ?thesis unfolding step fn card by (simp add: live1)
  qed
qed

text \<open>
  Claim C7, as amended. \<open>cancelRunTasks\<close> cancels every task of the run that is not
  terminal, each stamped with the clock reading of its turn, and returns how many it
  cancelled; every other task is as before, terminal tasks in particular, the run index
  is unchanged and no error is raised. A non-terminal descendant of a task of the run
  is cancelled when it is itself a task of the run.
\<close>

theorem cancelRunTasks_cancels_live_tasks_of_run:
  "fst (cancelRunTasks tm rn now) = Inr (card (live_ids tm rn)) \<and>
   (\<forall>i \<in> live_ids tm rn.
      tasks (snd (cancelRunTasks tm rn now)) i = map_option (cancelled_at (now i)) (tasks tm i)) \<and>
   (\<forall>i. i \<notin> live_ids tm rn \<longrightarrow> tasks (snd (cancelRunTasks tm rn now)) i = tasks tm i) \<and>
   (\<forall>i t. tasks tm i = Some t \<and> isTerminal t \<longrightarrow>
      tasks (snd (cancelRunTasks tm rn now)) i = Some t) \<and>
   tasksByRun (snd (cancelRunTasks tm rn now)) = tasksByRun tm \<and>
   (descendant tm p d \<and> p \<in> set (run_task_ids tm rn) \<and> d \<in> set (run_task_ids tm rn) \<and>
      live tm d \<longrightarrow>
        map_option status (tasks (snd (cancelRunTasks tm rn now)) d) = Some Cancelled)"
proof -
  let ?ids = "run_task_ids tm rn"
  have res: "cancelRunTasks tm rn now =
     (Inr (card (live_ids tm rn)),
      tm\<lparr>tasks := (\<lambda>i. if i \<in> set ?ids \<and> live tm i
                        then map_option (cancelled_at (now i)) (tasks tm i)
                        else tasks tm i)\<rparr>)"
    by (simp add: cancelRunTasks_def cancel_each_result live_ids_def)
  have a: "tasks (snd (cancelRunTasks tm rn now)) i = map_option (cancelled_at (now i)) (tasks tm i)"
    if "i \<in> live_ids tm rn" for i
    using that by (simp add: res live_ids_def)
  have b: "tasks (snd (cancelRunTasks tm rn now)) i = tasks tm i" if "i \<notin> live_ids tm rn" for i
    using that by (auto simp: res live_ids_def)
  have c: "tasks (snd (cancelRunTasks tm rn now)) i = Some t"
    if "tasks tm i = Some t \<and> isTerminal t" for i t
    using that by (simp add: res live_def)
  have d: "map_option status (tasks (snd (cancelRunTasks tm rn now)) d) = Some Cancelled"
    if "d \<in> set (run_task_ids tm rn)" "live tm d"
    using that by (auto simp: res live_def cancelled_at_def split: option.splits)
  show ?thesis using a b c d by (simp add: res)
qed

lemma family_index: "run_task_ids family_manager ''r1'' = [''A'', ''B'', ''D'']"
  by code_simp

lemma family_status:
  "map_option status (tasks family_manager ''A'') = Some Pending"
  "map_option status (tasks family_manager ''B'') = Some Pending"
  "map_option status (tasks family_manager ''C'') = Some Pending"
  "map_option status (tasks family_manager ''D'') = Some Completed"
  "map_option children (tasks family_manager ''A'') = Some [''B'', ''C'']"
  by code_simp+

lemma family_live:
  "live family_manager ''A''" "live family_manager ''B''" "live family_manager ''C''"
  "\<not> live family_manager ''D''"
  using family_status by (auto simp: live_def isTerminal_def split: option.splits)

lemma family_descendants:
  "descendant family_manager ''A'' ''B''" "descendant family_manager ''A'' ''C''"
proof -
  obtain t where t: "tasks family_manager ''A'' = Some t" "children t = [''B'', ''C'']"
    using family_status(5) by (cases "tasks family_manager ''A''") auto
  show "descendant family_manager ''A'' ''B''" "descendant family_manager ''A'' ''C''"
    using t by (auto intro: descendant.child)
qed

lemma family_live_ids: "live_ids family_manager ''r1'' = {''A'', ''B''}"
  using family_live by (auto simp: live_ids_def family_index)

theorem cancelRunTasks_cancels_live_tasks_of_run_witness:
  "live_ids family_manager ''r1'' = {''A'', ''B''} \<and>
   fst (cancelRunTasks family_manager ''r1'' fixed_clock) = Inr 2 \<and>
   descendant family_manager ''A'' ''B'' \<and>
   ''A'' \<in> set (run_task_ids family_manager ''r1'') \<and>
   ''B'' \<in> set (run_task_ids family_manager ''r1'') \<and>
   live family_manager ''B'' \<and>
   map_option status (tasks (snd (cancelRunTasks family_manager ''r1'' fixed_clock)) ''A'') = Some Cancelled \<and>
   map_option status (tasks (snd (cancelRunTasks family_manager ''r1'' fixed_clock)) ''B'') = Some Cancelled \<and>
   tasks (snd (cancelRunTasks family_manager ''r1'' fixed_clock)) ''D'' = tasks family_manager ''D'' \<and>
   map_option status (tasks family_manager ''D'') = Some Completed"
proof -
  let ?tm' = "snd (cancelRunTasks family_manager ''r1'' fixed_clock)"
  note main = cancelRunTasks_cancels_live_tasks_of_run [where tm = family_manager
      and rn = "''r1''" and now = fixed_clock and p = "''A''" and d = "''B''"]
  have n: "fst (cancelRunTasks family_manager ''r1'' fixed_clock) = Inr 2"
    using main by (simp add: family_live_ids)
  have a: "tasks ?tm' ''A'' = map_option (cancelled_at 50) (tasks family_manager ''A'')"
    using main by (simp add: family_live_ids fixed_clock_def)
  have b: "map_option status (tasks ?tm' ''B'') = Some Cancelled"
    using main family_descendants(1) family_live(2) by (simp add: family_index)
  have d: "tasks ?tm' ''D'' = tasks family_manager ''D''"
    using main by (simp add: family_live_ids)
  have a': "map_option status (tasks ?tm' ''A'') = Some Cancelled"
    using family_status(1) by (cases "tasks family_manager ''A''") (simp_all add: a cancelled_at_def)
  show ?thesis
    using n a' b d family_descendants(1) family_live(2) family_status(4)
    by (simp add: family_live_ids family_index)
qed

text \<open>
  Claim C7 as stated fails where a child link leaves the run. Task \<open>A\<close> of run \<open>r1\<close>
  has two descendants that are not terminal, \<open>B\<close> in \<open>r1\<close> and \<open>C\<close> in \<open>r2\<close>:
  \<open>cancelRunTasks\<close> on \<open>r1\<close> cancels two tasks, not three, and \<open>C\<close> stays pending.
\<close>

theorem cancelRunTasks_skips_child_in_other_run:
  "''A'' \<in> set (run_task_ids family_manager ''r1'') \<and>
   descendant family_manager ''A'' ''B'' \<and> live family_manager ''B'' \<and>
   descendant family_manager ''A'' ''C'' \<and> live family_manager ''C'' \<and>
   fst (cancelRunTasks family_manager ''r1'' fixed_clock) = Inr 2 \<and>
   tasks (snd (cancelRunTasks family_manager ''r1'' fixed_clock)) ''C'' = tasks family_manager ''C'' \<and>
   map_option status (tasks (snd (cancelRunTasks family_manager ''r1'' fixed_clock)) ''C'') = Some Pending"
proof -
  have res: "cancelRunTasks family_manager ''r1'' fixed_clock =
     (Inr (card (live_ids family_manager ''r1'')),
      family_manager\<lparr>tasks := (\<lambda>i. if i \<in> set (run_task_ids family_manager ''r1'') \<and> live family_manager i
                        then map_option (cancelled_at (fixed_clock i)) (tasks family_manager i)
                        else tasks family_manager i)\<rparr>)"
    by (simp add: cancelRunTasks_def cancel_each_result live_ids_def)
  show ?thesis
    using family_live family_descendants family_status
    by (simp add: res family_live_ids family_index)
qed

text \<open>
  \<open>cancelTask\<close> on \<open>A\<close>, which follows the child links, does cancel \<open>C\<close>.
\<close>

lemma cancelTask_reaches_child_in_other_run:
  "map_option (\<lambda>(e, tm). (e, map_option status (tasks tm ''C'')))
     (cancelTask 2 family_manager fixed_clock ''A'') = Some (None, Some Cancelled)"
  by code_simp

section \<open>Properties of Policy\<close>

lemma evaluate_rules_find:
  "evaluate_rules h rs ctx d =
     (case find (\<lambda>r. evaluateCondition h (rule_condition r) ctx \<noteq> Inr False) rs of
        None \<Rightarrow> Inr (default_result d)
      | Some r \<Rightarrow>
          (case evaluateCondition h (rule_condition r) ctx of
             Inl e \<Rightarrow> Inl e
           | Inr _ \<Rightarrow> Inr (rule_result r)))"
  by (induction rs) (auto split: sum.splits)

lemma find_Some_set: "find P xs = Some z \<Longrightarrow> z \<in> set xs \<and> P z"
  by (induction xs) (auto split: if_splits)

lemma find_insort_key:
  "sorted (map f ys) \<Longrightarrow>
   find P (insort_key f x ys) =
     (if P x
      then (case find P ys of
              None \<Rightarrow> Some x
            | Some y \<Rightarrow> if f x \<le> f y then Some x else Some y)
      else find P ys)"
proof (induction ys)
  case Nil
  then show ?case by simp
next
  case (Cons y ys)
  show ?case
  proof (cases "f x \<le> f y")
    case True
    have "f x \<le> f z" if "find P (y # ys) = Some z" for z
    proof -
      have "z \<in> set (y # ys)" using find_Some_set [OF that] by simp
      then have "f y \<le> f z" using Cons.prems by auto
      then show ?thesis using True by simp
    qed
    then show ?thesis using True by (auto split: option.splits)
  next
    case False
    have "sorted (map f ys)" using Cons.prems by simp
    from Cons.IH [OF this] False show ?thesis by (auto split: option.splits)
  qed
qed

lemma find_sort_key_split:
  "find P (sort_key f xs) = Some r \<Longrightarrow>
     \<exists>pre post. xs = pre @ r # post \<and> P r \<and>
       (\<forall>x \<in> set pre. P x \<longrightarrow> f r < f x) \<and> (\<forall>x \<in> set post. P x \<longrightarrow> f r \<le> f x)"
proof (induction xs arbitrary: r)
  case Nil
  then show ?case by simp
next
  case (Cons x xs)
  have srt: "sorted (map f (sort_key f xs))" by simp
  have eq: "find P (sort_key f (x # xs)) =
     (if P x
      then (case find P (sort_key f xs) of
              None \<Rightarrow> Some x
            | Some y \<Rightarrow> if f x \<le> f y then Some x else Some y)
      else find P (sort_key f xs))"
    using find_insort_key [OF srt] by simp
  show ?case
  proof (cases "find P (sort_key f xs)")
    case None
    then have nomatch: "\<forall>z \<in> set xs. \<not> P z" by (auto simp: find_None_iff)
    from Cons.prems eq None have "P x" "r = x" by (auto split: if_splits)
    then have "x # xs = [] @ r # xs \<and> P r \<and> (\<forall>z \<in> set []. P z \<longrightarrow> f r < f z) \<and>
       (\<forall>z \<in> set xs. P z \<longrightarrow> f r \<le> f z)"
      using nomatch by simp
    then show ?thesis by blast
  next
    case (Some y)
    from Cons.IH [OF Some] obtain pre post where y: "xs = pre @ y # post" "P y"
      "\<forall>z \<in> set pre. P z \<longrightarrow> f y < f z" "\<forall>z \<in> set post. P z \<longrightarrow> f y \<le> f z"
      by blast
    show ?thesis
    proof (cases "P x \<and> f x \<le> f y")
      case True
      then have r: "r = x" using Cons.prems eq Some by simp
      have "\<forall>z \<in> set xs. P z \<longrightarrow> f r \<le> f z"
        using y True r by (auto simp: less_le dest: order_trans)
      then have "x # xs = [] @ r # xs \<and> P r \<and> (\<forall>z \<in> set []. P z \<longrightarrow> f r < f z) \<and>
         (\<forall>z \<in> set xs. P z \<longrightarrow> f r \<le> f z)"
        using True r by simp
      then show ?thesis by blast
    next
      case False
      then have r: "r = y" using Cons.prems eq Some by (auto split: if_splits)
      have "\<forall>z \<in> set (x # pre). P z \<longrightarrow> f r < f z" using False y(3) r by auto
      then have "x # xs = (x # pre) @ r # post \<and> P r \<and>
         (\<forall>z \<in> set (x # pre). P z \<longrightarrow> f r < f z) \<and> (\<forall>z \<in> set post. P z \<longrightarrow> f r \<le> f z)"
        using y r by simp
      then show ?thesis by blast
    qed
  qed
qed

lemma find_sort_key_None: "find P (sort_key f xs) = None \<longleftrightarrow> (\<forall>x \<in> set xs. \<not> P x)"
  by (auto simp: find_None_iff)

lemma sort_key_resort_append:
  "sort_key f (sort_key f xs @ ys) = sort_key f (xs @ ys)"
proof (rule sym, rule properties_for_sort_key)
  show "mset (sort_key f (sort_key f xs @ ys)) = mset (xs @ ys)" by simp
  show "sorted (map f (sort_key f (sort_key f xs @ ys)))" by simp
  fix k
  have "filter (\<lambda>x. f x = f k) (sort_key f (sort_key f xs @ ys)) =
        filter (\<lambda>x. f x = f k) (sort_key f xs @ ys)"
    by (rule sort_key_stable)
  also have "\<dots> = filter (\<lambda>x. f x = f k) xs @ filter (\<lambda>x. f x = f k) ys"
    by (simp add: sort_key_stable)
  finally show "filter (\<lambda>x. f k = f x) (sort_key f (sort_key f xs @ ys)) =
        filter (\<lambda>x. f k = f x) (xs @ ys)"
    by (simp add: eq_commute [of "f k"])
qed

lemma sort_key_remove1:
  "sort_key f (remove1 r xs) = remove1 r (sort_key f xs)"
proof (rule properties_for_sort_key)
  show "mset (remove1 r (sort_key f xs)) = mset (remove1 r xs)" by simp
  show "sorted (map f (remove1 r (sort_key f xs)))" by (simp add: sorted_map_remove1)
  fix k
  have "filter (\<lambda>x. f x = f k) (remove1 r (sort_key f xs)) =
        remove1 r (filter (\<lambda>x. f x = f k) (sort_key f xs))"
    by (rule filter_remove1)
  also have "\<dots> = remove1 r (filter (\<lambda>x. f x = f k) xs)" by (simp add: sort_key_stable)
  also have "\<dots> = filter (\<lambda>x. f x = f k) (remove1 r xs)" by (simp add: filter_remove1)
  finally show "filter (\<lambda>x. f k = f x) (remove1 r (sort_key f xs)) =
        filter (\<lambda>x. f k = f x) (remove1 r xs)"
    by (simp add: eq_commute [of "f k"])
qed

lemma splice_first_remove1:
  "find P xs = Some r \<Longrightarrow> splice_first P xs = remove1 r xs"
  by (induction xs) (auto split: if_splits dest: find_Some_set)

lemma rules_apply_policy_op:
  assumes "rules p = by_priority_desc rs"
  shows "rules (apply_policy_op p op) = by_priority_desc (surviving_step rs op)"
proof (cases op)
  case (AddRule r)
  then show ?thesis
    using assms by (simp add: addRule_def by_priority_desc_def sort_key_resort_append)
next
  case (RemoveRule i)
  show ?thesis
  proof (cases "find (\<lambda>r. rule_id r = i) (by_priority_desc rs)")
    case None
    then have "\<not> (\<exists>r \<in> set (rules p). rule_id r = i)"
      using assms by (auto simp: find_None_iff)
    then show ?thesis using None RemoveRule assms by (simp add: removeRule_def)
  next
    case (Some r)
    then have ex: "\<exists>r \<in> set (rules p). rule_id r = i"
      using assms find_Some_set [OF Some] by auto
    have "splice_first (\<lambda>r. rule_id r = i) (rules p) = remove1 r (by_priority_desc rs)"
      using Some assms by (simp add: splice_first_remove1)
    also have "\<dots> = by_priority_desc (remove1 r rs)"
      by (simp add: by_priority_desc_def sort_key_remove1)
    finally show ?thesis using ex Some RemoveRule by (simp add: removeRule_def)
  qed
qed

lemma rules_foldl_ops:
  "rules p = by_priority_desc rs \<Longrightarrow>
     rules (foldl apply_policy_op p ops) = by_priority_desc (foldl surviving_step rs ops)"
proof (induction ops arbitrary: p rs)
  case Nil
  then show ?case by simp
next
  case (Cons op ops)
  from Cons.IH [OF rules_apply_policy_op [OF Cons.prems]] show ?case by simp
qed

lemma rules_build_policy:
  "rules (build_policy pcfg ops) = by_priority_desc (surviving pcfg ops)"
proof -
  have "rules (new_policy pcfg) =
        by_priority_desc (case pc_rules pcfg of None \<Rightarrow> [] | Some rs \<Rightarrow> rs)"
    by (simp add: new_policy_def by_priority_desc_def split: option.splits)
  from rules_foldl_ops [OF this] show ?thesis by (simp add: build_policy_def surviving_def)
qed

lemma defaultAction_apply_policy_op: "defaultAction (apply_policy_op p op) = defaultAction p"
  by (cases op) (simp_all add: addRule_def removeRule_def)

lemma defaultAction_build_policy:
  "defaultAction (build_policy pcfg ops) =
     (case pc_defaultAction pcfg of None \<Rightarrow> Deny | Some a \<Rightarrow> a)"
proof -
  have "defaultAction (foldl apply_policy_op p ops) = defaultAction p" for p
    by (induction ops arbitrary: p) (simp_all add: defaultAction_apply_policy_op)
  then show ?thesis by (simp add: build_policy_def new_policy_def)
qed

lemma evaluateCondition_timestamp:
  "evaluateCondition h c (ctx\<lparr>ctx_timestamp := t\<rparr>) = evaluateCondition h c ctx"
  by (simp add: evaluateCondition_def split: condition_type.splits)

lemma rule_verdict_timestamp:
  "rule_verdict h ag tool params now = rule_verdict h ag tool params now'"
proof
  fix r
  show "rule_verdict h ag tool params now r = rule_verdict h ag tool params now' r"
    using evaluateCondition_timestamp
      [where h = h and c = "rule_condition r" and t = now' and
        ctx = "\<lparr>ctx_agent = ag, ctx_toolName = tool, ctx_params = params, ctx_timestamp = now\<rparr>"]
    by (simp add: rule_verdict_def)
qed

lemma evaluate_find:
  "evaluate h p ag tool params now =
     (case find (\<lambda>r. rule_verdict h ag tool params now r \<noteq> Inr False) (rules p) of
        None \<Rightarrow> Inr (default_result (defaultAction p))
      | Some r \<Rightarrow>
          (case rule_verdict h ag tool params now r of
             Inl e \<Rightarrow> Inl e
           | Inr _ \<Rightarrow> Inr (rule_result r)))"
  unfolding evaluate_def evaluate_rules_find rule_verdict_def by (rule refl)

text \<open>
  Claim C4, as amended. Take any policy, built from a configuration and changed by any
  sequence of \<open>addRule\<close> and \<open>removeRule\<close>, and any call. The result of \<open>evaluate\<close> does
  not depend on the clock reading it takes, so it is a function of policy and call.
  When the condition of every rule still present is false of the call (as when there is
  no rule), \<open>evaluate\<close> returns the default action of the configuration, \<open>Deny\<close> when
  none was given, with \<open>allowed\<close> true exactly when that action is \<open>Allow\<close>, and no
  matched rule. Otherwise one rule \<open>r\<close> decides, whose condition is not false: every
  rule given before \<open>r\<close> whose condition is not false has a strictly lower priority,
  and every such rule given after \<open>r\<close> a priority not above it. When the condition of
  \<open>r\<close> is true, \<open>evaluate\<close> returns the action of \<open>r\<close>, with \<open>allowed\<close> true exactly when
  it is \<open>Allow\<close>, and \<open>r\<close> as the matched rule; when its evaluation throws, \<open>evaluate\<close>
  throws that error.
\<close>

theorem policy_evaluate_first_decisive_rule:
  "evaluate h (build_policy pcfg ops) ag tool params now =
     evaluate h (build_policy pcfg ops) ag tool params now' \<and>
   ((\<forall>r \<in> set (surviving pcfg ops). rule_verdict h ag tool params now r = Inr False) \<longrightarrow>
      evaluate h (build_policy pcfg ops) ag tool params now =
        Inr \<lparr> allowed = ((case pc_defaultAction pcfg of None \<Rightarrow> Deny | Some a \<Rightarrow> a) = Allow),
              result_action = (case pc_defaultAction pcfg of None \<Rightarrow> Deny | Some a \<Rightarrow> a),
              matchedRule = None,
              reason = Some ''No matching rule found, using default policy'' \<rparr>) \<and>
   ((\<exists>r \<in> set (surviving pcfg ops). rule_verdict h ag tool params now r \<noteq> Inr False) \<longrightarrow>
      (\<exists>pre r post.
         surviving pcfg ops = pre @ r # post \<and>
         rule_verdict h ag tool params now r \<noteq> Inr False \<and>
         (\<forall>x \<in> set pre. rule_verdict h ag tool params now x \<noteq> Inr False \<longrightarrow>
            rule_priority x < rule_priority r) \<and>
         (\<forall>x \<in> set post. rule_verdict h ag tool params now x \<noteq> Inr False \<longrightarrow>
            rule_priority x \<le> rule_priority r) \<and>
         (rule_verdict h ag tool params now r = Inr True \<longrightarrow>
            evaluate h (build_policy pcfg ops) ag tool params now =
              Inr \<lparr> allowed = (rule_action r = Allow),
                    result_action = rule_action r,
                    matchedRule = Some r,
                    reason = Some (case truthy_str (rule_description r) of
                                     Some d \<Rightarrow> d
                                   | None \<Rightarrow> ''Matched rule: '' @ rule_name r) \<rparr>) \<and>
         (\<forall>e. rule_verdict h ag tool params now r = Inl e \<longrightarrow>
            evaluate h (build_policy pcfg ops) ag tool params now = Inl e)))"
proof -
  let ?P = "\<lambda>r. rule_verdict h ag tool params now r \<noteq> Inr False"
  let ?p = "build_policy pcfg ops"
  let ?f = "\<lambda>r. - rule_priority r"
  let ?ev = "evaluate h ?p ag tool params now"
  have rules: "rules ?p = sort_key ?f (surviving pcfg ops)"
    by (simp add: rules_build_policy by_priority_desc_def)
  have a: "?ev = evaluate h ?p ag tool params now'"
    unfolding evaluate_find rule_verdict_timestamp [of h ag tool params now now'] by (rule refl)
  have b: "?ev =
        Inr \<lparr> allowed = ((case pc_defaultAction pcfg of None \<Rightarrow> Deny | Some a \<Rightarrow> a) = Allow),
              result_action = (case pc_defaultAction pcfg of None \<Rightarrow> Deny | Some a \<Rightarrow> a),
              matchedRule = None,
              reason = Some ''No matching rule found, using default policy'' \<rparr>"
    if "\<forall>r \<in> set (surviving pcfg ops). rule_verdict h ag tool params now r = Inr False"
  proof -
    have "find ?P (rules ?p) = None" using that by (simp add: rules find_sort_key_None)
    then show ?thesis
      by (simp add: evaluate_find defaultAction_build_policy default_result_def)
  qed
  have c: "\<exists>pre r post.
         surviving pcfg ops = pre @ r # post \<and> ?P r \<and>
         (\<forall>x \<in> set pre. ?P x \<longrightarrow> rule_priority x < rule_priority r) \<and>
         (\<forall>x \<in> set post. ?P x \<longrightarrow> rule_priority x \<le> rule_priority r) \<and>
         (rule_verdict h ag tool params now r = Inr True \<longrightarrow>
            ?ev =
              Inr \<lparr> allowed = (rule_action r = Allow),
                    result_action = rule_action r,
                    matchedRule = Some r,
                    reason = Some (case truthy_str (rule_description r) of
                                     Some d \<Rightarrow> d
                                   | None \<Rightarrow> ''Matched rule: '' @ rule_name r) \<rparr>) \<and>
         (\<forall>e. rule_verdict h ag tool params now r = Inl e \<longrightarrow> ?ev = Inl e)"
    if "\<exists>r \<in> set (surviving pcfg ops). ?P r"
  proof -
    have "find ?P (rules ?p) \<noteq> None" using that by (simp add: rules find_sort_key_None)
    then obtain r where r: "find ?P (sort_key ?f (surviving pcfg ops)) = Some r"
      using rules by auto
    from find_sort_key_split [OF r] obtain pre post where
      sp: "surviving pcfg ops = pre @ r # post" "?P r"
        "\<forall>x \<in> set pre. ?P x \<longrightarrow> ?f r < ?f x" "\<forall>x \<in> set post. ?P x \<longrightarrow> ?f r \<le> ?f x"
      by blast
    have ev: "?ev = (case rule_verdict h ag tool params now r of
                       Inl e \<Rightarrow> Inl e
                     | Inr _ \<Rightarrow> Inr (rule_result r))"
      using r rules by (simp add: evaluate_find)
    have t: "?ev =
              Inr \<lparr> allowed = (rule_action r = Allow),
                    result_action = rule_action r,
                    matchedRule = Some r,
                    reason = Some (case truthy_str (rule_description r) of
                                     Some d \<Rightarrow> d
                                   | None \<Rightarrow> ''Matched rule: '' @ rule_name r) \<rparr>"
      if "rule_verdict h ag tool params now r = Inr True"
      using that by (simp add: ev rule_result_def)
    have e: "?ev = Inl e" if "rule_verdict h ag tool params now r = Inl e" for e
      using that by (simp add: ev)
    have o: "\<forall>x \<in> set pre. ?P x \<longrightarrow> rule_priority x < rule_priority r"
      "\<forall>x \<in> set post. ?P x \<longrightarrow> rule_priority x \<le> rule_priority r"
      using sp(3,4) by simp_all
    show ?thesis using sp(1,2) o t e by blast
  qed
  show ?thesis using a b c by blast
qed

lemma example_policy_facts:
  "surviving (executor_config ''p1'') example_ops =
     [allow_execute, allow_webhook, deny_hooks, deny_admin]"
  "rules (build_policy (executor_config ''p1'') example_ops) =
     [deny_admin, allow_execute, allow_webhook, deny_hooks]"
  "rule_verdict example_host example_agent ''send_webhook'' Map.empty 0 allow_execute = Inr False"
  "rule_verdict example_host example_agent ''send_webhook'' Map.empty 0 allow_webhook = Inr True"
  "rule_verdict example_host example_agent ''send_webhook'' Map.empty 0 deny_hooks = Inr True"
  "rule_verdict example_host example_agent ''send_webhook'' Map.empty 0 deny_admin = Inr False"
  "surviving (executor_config ''p1'') [AddRule deny_group] =
     [allow_execute, allow_webhook, allow_file, deny_group]"
  "rule_verdict example_host example_agent ''send_webhook'' Map.empty 0 deny_group =
     Inl (Error ''Invalid regular expression: /(/: Unterminated group'')"
  "rule_verdict example_host example_agent ''send_webhook'' Map.empty 0 allow_file = Inr False"
  "rule_verdict example_host example_agent ''post_webhook'' Map.empty 0 allow_execute = Inr False"
  "rule_verdict example_host example_agent ''post_webhook'' Map.empty 0 allow_webhook = Inr True"
  "rule_verdict example_host example_agent ''post_webhook'' Map.empty 0 allow_file = Inr False"
  "rule_verdict example_host example_agent ''post_webhook'' Map.empty 0 deny_group =
     Inl (Error ''Invalid regular expression: /(/: Unterminated group'')"
  by code_simp+

lemma example_rule_facts:
  "rule_priority allow_webhook = 90" "rule_priority deny_hooks = 90"
  "rule_action allow_webhook = Allow" "rule_name allow_webhook = ''Allow Webhook Operations''"
  "rule_description allow_webhook = None"
  "allow_webhook \<noteq> allow_execute" "allow_webhook \<noteq> deny_hooks" "allow_webhook \<noteq> deny_admin"
  "deny_hooks \<noteq> allow_execute" "deny_hooks \<noteq> deny_admin"
  "rule_priority deny_group = 95" "allow_webhook \<noteq> deny_group" "allow_webhook \<noteq> allow_file"
  by (simp_all add: allow_webhook_def deny_hooks_def allow_execute_def deny_admin_def
      deny_group_def allow_file_def tool_rule_def)

theorem policy_evaluate_first_decisive_rule_witness:
  "rule_verdict example_host example_agent ''send_webhook'' Map.empty 0 allow_webhook = Inr True \<and>
   rule_verdict example_host example_agent ''send_webhook'' Map.empty 0 deny_hooks = Inr True \<and>
   rule_priority deny_hooks = rule_priority allow_webhook \<and>
   evaluate example_host (build_policy (executor_config ''p1'') example_ops)
       example_agent ''send_webhook'' Map.empty 0 =
     Inr \<lparr> allowed = True, result_action = Allow, matchedRule = Some allow_webhook,
           reason = Some ''Matched rule: Allow Webhook Operations'' \<rparr> \<and>
   evaluate example_host (build_policy (approval_config ''p2'') [])
       example_agent ''delete_all'' Map.empty 0 =
     Inr \<lparr> allowed = False, result_action = RequireApproval, matchedRule = None,
           reason = Some ''No matching rule found, using default policy'' \<rparr> \<and>
   evaluate example_host (build_policy allow_all_config [])
       example_agent ''delete_all'' Map.empty 0 =
     Inr \<lparr> allowed = True, result_action = Allow, matchedRule = None,
           reason = Some ''No matching rule found, using default policy'' \<rparr> \<and>
   evaluate example_host (build_policy unset_config [])
       example_agent ''delete_all'' Map.empty 0 =
     Inr \<lparr> allowed = False, result_action = Deny, matchedRule = None,
           reason = Some ''No matching rule found, using default policy'' \<rparr> \<and>
   rule_verdict example_host example_agent ''post_webhook'' Map.empty 0 deny_group =
     Inl (Error ''Invalid regular expression: /(/: Unterminated group'') \<and>
   evaluate example_host (build_policy (executor_config ''p1'') [AddRule deny_group])
       example_agent ''post_webhook'' Map.empty 0 =
     Inl (Error ''Invalid regular expression: /(/: Unterminated group'')"
proof -
  let ?v = "rule_verdict example_host example_agent ''send_webhook'' Map.empty 0"
  let ?ev = "evaluate example_host (build_policy (executor_config ''p1'') example_ops)
       example_agent ''send_webhook'' Map.empty 0"
  note webhook = policy_evaluate_first_decisive_rule
    [where h = example_host and pcfg = "executor_config ''p1''" and ops = example_ops
       and ag = example_agent and tool = "''send_webhook''" and params = Map.empty
       and now = 0 and now' = 1]
  note approval = policy_evaluate_first_decisive_rule
    [where h = example_host and pcfg = "approval_config ''p2''" and ops = "[]"
       and ag = example_agent and tool = "''delete_all''" and params = Map.empty
       and now = 0 and now' = 1]
  note allow_all = policy_evaluate_first_decisive_rule
    [where h = example_host and pcfg = allow_all_config and ops = "[]"
       and ag = example_agent and tool = "''delete_all''" and params = Map.empty
       and now = 0 and now' = 1]
  note unset = policy_evaluate_first_decisive_rule
    [where h = example_host and pcfg = unset_config and ops = "[]"
       and ag = example_agent and tool = "''delete_all''" and params = Map.empty
       and now = 0 and now' = 1]
  have "\<exists>r \<in> set (surviving (executor_config ''p1'') example_ops). ?v r \<noteq> Inr False"
    by (simp add: example_policy_facts)
  with webhook obtain pre r post where
    sp: "[allow_execute, allow_webhook, deny_hooks, deny_admin] = pre @ r # post" and
    nf: "?v r \<noteq> Inr False" and
    before: "\<forall>x \<in> set pre. ?v x \<noteq> Inr False \<longrightarrow> rule_priority x < rule_priority r" and
    matched: "?v r = Inr True \<longrightarrow>
       ?ev = Inr \<lparr> allowed = (rule_action r = Allow), result_action = rule_action r,
                   matchedRule = Some r,
                   reason = Some (case truthy_str (rule_description r) of
                                    Some d \<Rightarrow> d
                                  | None \<Rightarrow> ''Matched rule: '' @ rule_name r) \<rparr>"
    unfolding example_policy_facts(1) by blast
  have "r \<in> set [allow_execute, allow_webhook, deny_hooks, deny_admin]"
    unfolding sp by simp
  then have "r = allow_webhook \<or> r = deny_hooks"
    using nf by (auto simp: example_policy_facts)
  moreover have "r \<noteq> deny_hooks"
  proof
    assume r: "r = deny_hooks"
    have "allow_webhook \<in> set pre"
      using sp example_rule_facts unfolding r
      by (auto simp: Cons_eq_append_conv)
    then have "rule_priority allow_webhook < rule_priority deny_hooks"
      using before r by (simp add: example_policy_facts)
    then show False by (simp add: example_rule_facts)
  qed
  ultimately have r: "r = allow_webhook" by blast
  have 1: "?ev = Inr \<lparr> allowed = True, result_action = Allow, matchedRule = Some allow_webhook,
           reason = Some ''Matched rule: Allow Webhook Operations'' \<rparr>"
    using matched unfolding r
    by (simp add: example_policy_facts example_rule_facts truthy_str_def)
  have 2: "evaluate example_host (build_policy (approval_config ''p2'') [])
       example_agent ''delete_all'' Map.empty 0 =
     Inr \<lparr> allowed = False, result_action = RequireApproval, matchedRule = None,
           reason = Some ''No matching rule found, using default policy'' \<rparr>"
    using approval [THEN conjunct2, THEN conjunct1] by (simp add: surviving_def approval_config_def)
  have 3: "evaluate example_host (build_policy allow_all_config [])
       example_agent ''delete_all'' Map.empty 0 =
     Inr \<lparr> allowed = True, result_action = Allow, matchedRule = None,
           reason = Some ''No matching rule found, using default policy'' \<rparr>"
    using allow_all [THEN conjunct2, THEN conjunct1] by (simp add: surviving_def allow_all_config_def)
  have 4: "evaluate example_host (build_policy unset_config [])
       example_agent ''delete_all'' Map.empty 0 =
     Inr \<lparr> allowed = False, result_action = Deny, matchedRule = None,
           reason = Some ''No matching rule found, using default policy'' \<rparr>"
    using unset [THEN conjunct2, THEN conjunct1] by (simp add: surviving_def unset_config_def)
  let ?u = "rule_verdict example_host example_agent ''post_webhook'' Map.empty 0"
  let ?eu = "evaluate example_host (build_policy (executor_config ''p1'') [AddRule deny_group])
       example_agent ''post_webhook'' Map.empty 0"
  note broken = policy_evaluate_first_decisive_rule
    [where h = example_host and pcfg = "executor_config ''p1''" and ops = "[AddRule deny_group]"
       and ag = example_agent and tool = "''post_webhook''" and params = Map.empty
       and now = 0 and now' = 1]
  have "\<exists>r \<in> set (surviving (executor_config ''p1'') [AddRule deny_group]). ?u r \<noteq> Inr False"
    by (simp add: example_policy_facts)
  with broken obtain pre' r' post' where
    sp': "[allow_execute, allow_webhook, allow_file, deny_group] = pre' @ r' # post'" and
    nf': "?u r' \<noteq> Inr False" and
    behind: "\<forall>x \<in> set post'. ?u x \<noteq> Inr False \<longrightarrow> rule_priority x \<le> rule_priority r'" and
    thrown: "\<forall>e. ?u r' = Inl e \<longrightarrow> ?eu = Inl e"
    unfolding example_policy_facts(7) by blast
  have "r' \<in> set [allow_execute, allow_webhook, allow_file, deny_group]"
    unfolding sp' by simp
  then have "r' = allow_webhook \<or> r' = deny_group"
    using nf' by (auto simp: example_policy_facts)
  moreover have "r' \<noteq> allow_webhook"
  proof
    assume r': "r' = allow_webhook"
    have "deny_group \<in> set post'"
      using sp' example_rule_facts unfolding r'
      by (auto simp: Cons_eq_append_conv)
    then have "rule_priority deny_group \<le> rule_priority allow_webhook"
      using behind r' by (simp add: example_policy_facts)
    then show False by (simp add: example_rule_facts)
  qed
  ultimately have r': "r' = deny_group" by blast
  have 5: "?eu = Inl (Error ''Invalid regular expression: /(/: Unterminated group'')"
    using thrown unfolding r' by (simp add: example_policy_facts)
  show ?thesis
    using 1 2 3 4 5 by (simp add: example_policy_facts example_rule_facts)
qed

text \<open>
  Claim C4 as stated fails when a rule's pattern is not a regular expression. The rule
  \<open>deny-group\<close>, of priority 95, is added to the executor preset; the one rule that
  matches the call \<open>send_webhook\<close> is \<open>allow-webhook\<close>, of priority 90; and \<open>evaluate\<close>
  returns no outcome at all but throws the error of \<^verbatim>\<open>new RegExp('(')\<close>.
\<close>

theorem evaluate_throws_before_matching_rule:
  "surviving (executor_config ''p1'') [AddRule deny_group] =
     [allow_execute, allow_webhook, allow_file, deny_group] \<and>
   rule_verdict example_host example_agent ''send_webhook'' Map.empty 0 allow_execute = Inr False \<and>
   rule_verdict example_host example_agent ''send_webhook'' Map.empty 0 allow_webhook = Inr True \<and>
   rule_verdict example_host example_agent ''send_webhook'' Map.empty 0 allow_file = Inr False \<and>
   rule_verdict example_host example_agent ''send_webhook'' Map.empty 0 deny_group =
     Inl (Error ''Invalid regular expression: /(/: Unterminated group'') \<and>
   evaluate example_host (build_policy (executor_config ''p1'') [AddRule deny_group])
       example_agent ''send_webhook'' Map.empty 0 =
     Inl (Error ''Invalid regular expression: /(/: Unterminated group'')"
  by code_simp

section \<open>Properties of the workflow runner\<close>





lemma run_steps_success:
  assumes "executeStep env d a st inp w = (Inr r, w')" "sr_status r \<noteq> StepFailed"
  shows "run_steps env d a inp (st # rest) rs errs w =
           run_steps env d a inp rest (rs @ [r]) errs w'"
  using assms by simp

lemma run_steps_append:
  "run_steps env d a inp (xs @ ys) rs errs w =
     (case run_steps env d a inp xs rs errs w of
        ((RunCompleted, rs', errs'), w') \<Rightarrow> run_steps env d a inp ys rs' errs' w'
      | other \<Rightarrow> other)"
proof (induction xs arbitrary: rs errs w)
  case Nil
  then show ?case by simp
next
  case (Cons x xs)
  show ?case
  proof (cases "executeStep env d a x inp w")
    case (Pair res w')
    show ?thesis
    proof (cases res)
      case (Inl e)
      then show ?thesis using Pair by (cases e) simp
    next
      case (Inr r)
      then show ?thesis using Pair Cons.IH by simp
    qed
  qed
qed














section \<open>Properties of the orchestrator\<close>

lemma resume_call_cases:
  "resume_call orc c awaited ue = (orc', res) \<Longrightarrow>
     (in_try c \<and> (\<exists>c'. res = Inl c' \<and> call_runId c' = call_runId c \<and>
         ((in_try c' \<and> orc' = orc) \<or> (\<not> in_try c' \<and> orc' = leave_try orc)))) \<or>
     (\<not> in_try c \<and> (\<exists>e. res = Inr e) \<and> isRunning orc' = isRunning orc \<and>
         currentRunId orc' = currentRunId orc \<and> workflows orc' = workflows orc)"
  by (auto simp: resume_call_def catch_failure_def loop_from_def Let_def
      split: run_phase.splits option.splits js_error.splits list.splits if_splits)

lemma resume_in_progress:
  "resume_in rid awaited ue orc cs = (orc', cs') \<Longrightarrow>
     (isRunning orc' = isRunning orc \<and>
        length (filter in_try cs') = length (filter in_try cs)) \<or>
     length (filter in_try cs') < length (filter in_try cs)"
proof (induction cs arbitrary: orc' cs')
  case Nil
  then show ?case by simp
next
  case (Cons c cs)
  show ?case
  proof (cases "call_runId c = rid")
    case True
    obtain orc1 res where r: "resume_call orc c awaited ue = (orc1, res)"
      by (cases "resume_call orc c awaited ue") auto
    from resume_call_cases [OF r] Cons.prems True r show ?thesis
      by (auto split: sum.splits)
  next
    case False
    obtain orc1 cs1 where r: "resume_in rid awaited ue orc cs = (orc1, cs1)"
      by (cases "resume_in rid awaited ue orc cs") auto
    from Cons.IH [OF r] Cons.prems False r show ?thesis by auto
  qed
qed

lemma inv_new_system: "single_flight_inv (new_system wfs)"
  by (simp add: single_flight_inv_def new_system_def)

lemma inv_runWorkflow:
  "single_flight_inv sys \<Longrightarrow> single_flight_inv (snd (runWorkflow sys wid fresh ce ue))"
  by (auto simp: single_flight_inv_def runWorkflow_def catch_failure_def leave_try_def Let_def
      split: option.splits js_error.splits)

lemma inv_resume:
  assumes "single_flight_inv sys"
  shows "single_flight_inv (resume sys rid awaited ue)"
proof -
  obtain orc' cs' where
    r: "resume_in rid awaited ue (sys_orchestrator sys) (sys_calls sys) = (orc', cs')"
    by (cases "resume_in rid awaited ue (sys_orchestrator sys) (sys_calls sys)") auto
  have s: "resume sys rid awaited ue = \<lparr> sys_orchestrator = orc', sys_calls = cs' \<rparr>"
    using r by (simp add: resume_def)
  from resume_in_progress [OF r]
  consider (same) "isRunning orc' = isRunning (sys_orchestrator sys)"
      "length (filter in_try cs') = length (filter in_try (sys_calls sys))"
    | (fewer) "length (filter in_try cs') < length (filter in_try (sys_calls sys))"
    by blast
  then show ?thesis
  proof cases
    case same
    have "filter in_try cs' \<noteq> [] \<Longrightarrow> filter in_try (sys_calls sys) \<noteq> []"
      using same(2) by (metis length_0_conv)
    then show ?thesis using assms same unfolding s single_flight_inv_def by auto
  next
    case fewer
    then have "length (filter in_try cs') = 0"
      using assms unfolding single_flight_inv_def by linarith
    then show ?thesis unfolding s single_flight_inv_def by simp
  qed
qed

lemma inv_after_events:
  "\<forall>ev \<in> set evs. \<not> is_cancel ev \<Longrightarrow> single_flight_inv (after_events wfs evs)"
proof (induction evs rule: rev_induct)
  case Nil
  then show ?case by (simp add: after_events_def inv_new_system)
next
  case (snoc ev evs)
  then have ih: "single_flight_inv (after_events wfs evs)" by simp
  have nc: "\<not> is_cancel ev" using snoc.prems by simp
  have "after_events wfs (evs @ [ev]) = apply_event (after_events wfs evs) ev"
    by (simp add: after_events_def)
  then show ?case using ih nc by (cases ev) (simp_all add: inv_runWorkflow inv_resume)
qed

text \<open>
  Claim C3, as amended. A call of \<open>runWorkflow\<close> made while the flag \<open>isRunning\<close> is set
  throws ``Orchestrator is already running a workflow'' (the AlreadyRunning error) at
  once, whatever workflow it names and whatever storage would do, and leaves the
  orchestrator, its run records and the suspended calls as they are: nothing is queued
  and no run record is created. The workflow is looked up, and ``Workflow not found''
  thrown for an unknown one, only when the flag is clear. A call that is admitted sets
  the flag, creates one run record and is suspended as a run in progress. After any
  sequence of calls of \<open>runWorkflow\<close> and of suspended calls going on, with no call of
  \<open>cancel\<close>, at most one run is in progress, and while one is, every call of
  \<open>runWorkflow\<close> is refused in this way. \<open>cancel\<close> leaves the suspended calls as they
  are, and clears the flag when it is set with a run id and storage does not throw.
\<close>

theorem runWorkflow_refused_while_flag_set:
  "(isRunning (sys_orchestrator sys) \<longrightarrow>
      runWorkflow sys wid fresh ce ue =
        (Some (Error ''Orchestrator is already running a workflow''), sys)) \<and>
   (\<not> isRunning (sys_orchestrator sys) \<and> workflows (sys_orchestrator sys) wid = None \<longrightarrow>
      runWorkflow sys wid fresh ce ue = (Some (Error (''Workflow not found: '' @ wid)), sys)) \<and>
   (\<not> isRunning (sys_orchestrator sys) \<and> workflows (sys_orchestrator sys) wid = Some steps \<longrightarrow>
      fst (runWorkflow sys wid fresh None None) = None \<and>
      isRunning (sys_orchestrator (snd (runWorkflow sys wid fresh None None))) \<and>
      currentRunId (sys_orchestrator (snd (runWorkflow sys wid fresh None None))) = Some fresh \<and>
      length (run_records (sys_orchestrator (snd (runWorkflow sys wid fresh None None)))) =
        length (run_records (sys_orchestrator sys)) + 1 \<and>
      sys_calls (snd (runWorkflow sys wid fresh None None)) =
        sys_calls sys @
          [\<lparr> call_runId = fresh, call_phase = AwaitAgents steps, call_errors = [] \<rparr>] \<and>
      runs_in_progress (snd (runWorkflow sys wid fresh None None)) =
        runs_in_progress sys @ [fresh]) \<and>
   ((\<forall>ev \<in> set evs. \<not> is_cancel ev) \<longrightarrow>
      length (runs_in_progress (after_events wfs evs)) \<le> 1 \<and>
      (runs_in_progress (after_events wfs evs) \<noteq> [] \<longrightarrow>
         runWorkflow (after_events wfs evs) wid fresh ce ue =
           (Some (Error ''Orchestrator is already running a workflow''),
            after_events wfs evs))) \<and>
   sys_calls (snd (cancel_run sys se)) = sys_calls sys \<and>
   (isRunning (sys_orchestrator sys) \<and> currentRunId (sys_orchestrator sys) = Some rid \<and>
      rid \<noteq> [] \<longrightarrow>
      \<not> isRunning (sys_orchestrator (snd (cancel_run sys None))))"
proof -
  have a: "runWorkflow s wid fresh ce ue =
        (Some (Error ''Orchestrator is already running a workflow''), s)"
    if "isRunning (sys_orchestrator s)" for s
    using that by (simp add: runWorkflow_def)
  have b: "runWorkflow sys wid fresh ce ue = (Some (Error (''Workflow not found: '' @ wid)), sys)"
    if "\<not> isRunning (sys_orchestrator sys)" "workflows (sys_orchestrator sys) wid = None"
    using that by (simp add: runWorkflow_def)
  have c: "fst (runWorkflow sys wid fresh None None) = None \<and>
      isRunning (sys_orchestrator (snd (runWorkflow sys wid fresh None None))) \<and>
      currentRunId (sys_orchestrator (snd (runWorkflow sys wid fresh None None))) = Some fresh \<and>
      length (run_records (sys_orchestrator (snd (runWorkflow sys wid fresh None None)))) =
        length (run_records (sys_orchestrator sys)) + 1 \<and>
      sys_calls (snd (runWorkflow sys wid fresh None None)) =
        sys_calls sys @
          [\<lparr> call_runId = fresh, call_phase = AwaitAgents steps, call_errors = [] \<rparr>] \<and>
      runs_in_progress (snd (runWorkflow sys wid fresh None None)) =
        runs_in_progress sys @ [fresh]"
    if "\<not> isRunning (sys_orchestrator sys)" "workflows (sys_orchestrator sys) wid = Some steps"
    using that
    by (simp add: runWorkflow_def Let_def set_run_status_def runs_in_progress_def)
  have d: "length (runs_in_progress (after_events wfs evs)) \<le> 1 \<and>
      (runs_in_progress (after_events wfs evs) \<noteq> [] \<longrightarrow>
         runWorkflow (after_events wfs evs) wid fresh ce ue =
           (Some (Error ''Orchestrator is already running a workflow''),
            after_events wfs evs))"
    if "\<forall>ev \<in> set evs. \<not> is_cancel ev"
  proof -
    from inv_after_events [OF that, of wfs]
    have i: "filter in_try (sys_calls (after_events wfs evs)) \<noteq> [] \<longrightarrow>
               isRunning (sys_orchestrator (after_events wfs evs))"
      and l: "length (filter in_try (sys_calls (after_events wfs evs))) \<le> 1"
      by (simp_all add: single_flight_inv_def)
    have "isRunning (sys_orchestrator (after_events wfs evs))"
      if "runs_in_progress (after_events wfs evs) \<noteq> []"
      using that i by (simp add: runs_in_progress_def)
    then show ?thesis using l a by (simp add: runs_in_progress_def)
  qed
  have e: "sys_calls (snd (cancel_run sys se)) = sys_calls sys"
    by (simp add: cancel_run_def split: option.splits)
  have f: "\<not> isRunning (sys_orchestrator (snd (cancel_run sys None)))"
    if "isRunning (sys_orchestrator sys)" "currentRunId (sys_orchestrator sys) = Some rid"
       "rid \<noteq> []"
    using that by (simp add: cancel_run_def truthy_str_def)
  show ?thesis using a b c d e f by blast
qed

lemma example_system_facts:
  "after_events example_workflows
     [CallRunWorkflow ''sentinel'' ''run-1'' None None, Resume ''run-1'' None None] =
     \<lparr> sys_orchestrator =
         \<lparr> isRunning = True, currentRunId = Some ''run-1'', workflows = example_workflows,
           run_records =
             [\<lparr> rr_id = ''run-1'', rr_workflowId = ''sentinel'', rr_status = RunRunning \<rparr>] \<rparr>,
       sys_calls =
         [\<lparr> call_runId = ''run-1'',
            call_phase = AwaitStep (mk_step ''observe'' ''watch'') [mk_step ''analyze'' ''score''],
            call_errors = [] \<rparr>] \<rparr>"
  "runs_in_progress (after_events example_workflows
     [CallRunWorkflow ''sentinel'' ''run-1'' None None, Resume ''run-1'' None None]) = [''run-1'']"
  "workflows (sys_orchestrator (new_system example_workflows)) ''sentinel'' =
     Some [mk_step ''observe'' ''watch'', mk_step ''analyze'' ''score'']"
  "workflows (sys_orchestrator (new_system example_workflows)) ''no-such-workflow'' = None"
  "\<not> isRunning (sys_orchestrator (new_system example_workflows))"
  "runs_in_progress (new_system example_workflows) = []"
  by (simp_all add: after_events_def new_system_def new_orchestrator_def runWorkflow_def
      resume_def resume_call_def loop_from_def set_run_status_def example_workflows_def
      runs_in_progress_def Let_def)

theorem runWorkflow_refused_while_flag_set_witness:
  "runs_in_progress (after_events example_workflows
     [CallRunWorkflow ''sentinel'' ''run-1'' None None, Resume ''run-1'' None None]) = [''run-1''] \<and>
   runWorkflow
     (after_events example_workflows
        [CallRunWorkflow ''sentinel'' ''run-1'' None None, Resume ''run-1'' None None])
     ''no-such-workflow'' ''run-2'' None None =
     (Some (Error ''Orchestrator is already running a workflow''),
      \<lparr> sys_orchestrator =
         \<lparr> isRunning = True, currentRunId = Some ''run-1'', workflows = example_workflows,
           run_records =
             [\<lparr> rr_id = ''run-1'', rr_workflowId = ''sentinel'', rr_status = RunRunning \<rparr>] \<rparr>,
       sys_calls =
         [\<lparr> call_runId = ''run-1'',
            call_phase = AwaitStep (mk_step ''observe'' ''watch'') [mk_step ''analyze'' ''score''],
            call_errors = [] \<rparr>] \<rparr>) \<and>
   runWorkflow (new_system example_workflows) ''no-such-workflow'' ''run-2'' None None =
     (Some (Error ''Workflow not found: no-such-workflow''), new_system example_workflows) \<and>
   fst (runWorkflow (new_system example_workflows) ''sentinel'' ''run-1'' None None) = None \<and>
   isRunning (sys_orchestrator
     (snd (runWorkflow (new_system example_workflows) ''sentinel'' ''run-1'' None None))) \<and>
   length (run_records (sys_orchestrator
     (snd (runWorkflow (new_system example_workflows) ''sentinel'' ''run-1'' None None)))) = 1 \<and>
   runs_in_progress
     (snd (runWorkflow (new_system example_workflows) ''sentinel'' ''run-1'' None None)) =
     [''run-1''] \<and>
   sys_calls (snd (cancel_run
     (after_events example_workflows
        [CallRunWorkflow ''sentinel'' ''run-1'' None None, Resume ''run-1'' None None]) None)) =
     [\<lparr> call_runId = ''run-1'',
        call_phase = AwaitStep (mk_step ''observe'' ''watch'') [mk_step ''analyze'' ''score''],
        call_errors = [] \<rparr>] \<and>
   \<not> isRunning (sys_orchestrator (snd (cancel_run
     (after_events example_workflows
        [CallRunWorkflow ''sentinel'' ''run-1'' None None, Resume ''run-1'' None None]) None)))"
proof -
  note busy = runWorkflow_refused_while_flag_set
    [where sys = "after_events example_workflows
        [CallRunWorkflow ''sentinel'' ''run-1'' None None, Resume ''run-1'' None None]"
       and wid = "''no-such-workflow''" and fresh = "''run-2''" and ce = None and ue = None
       and steps = "[]" and wfs = example_workflows and se = None and rid = "''run-1''"
       and evs = "[CallRunWorkflow ''sentinel'' ''run-1'' None None, Resume ''run-1'' None None]"]
  note unknown = runWorkflow_refused_while_flag_set
    [where sys = "new_system example_workflows"
       and wid = "''no-such-workflow''" and fresh = "''run-2''" and ce = None and ue = None
       and steps = "[]" and wfs = example_workflows and se = None and rid = "''run-1''"
       and evs = "[]"]
  note idle = runWorkflow_refused_while_flag_set
    [where sys = "new_system example_workflows"
       and wid = "''sentinel''" and fresh = "''run-1''" and ce = None and ue = None
       and steps = "[mk_step ''observe'' ''watch'', mk_step ''analyze'' ''score'']"
       and wfs = example_workflows and se = None and rid = "''run-1''" and evs = "[]"]
  have nc: "\<forall>ev \<in> set [CallRunWorkflow ''sentinel'' ''run-1'' None None, Resume ''run-1'' None None].
              \<not> is_cancel ev"
    by simp
  have run: "isRunning (sys_orchestrator (after_events example_workflows
        [CallRunWorkflow ''sentinel'' ''run-1'' None None, Resume ''run-1'' None None]))"
    "currentRunId (sys_orchestrator (after_events example_workflows
        [CallRunWorkflow ''sentinel'' ''run-1'' None None, Resume ''run-1'' None None])) = Some ''run-1''"
    "sys_calls (after_events example_workflows
        [CallRunWorkflow ''sentinel'' ''run-1'' None None, Resume ''run-1'' None None]) =
     [\<lparr> call_runId = ''run-1'',
        call_phase = AwaitStep (mk_step ''observe'' ''watch'') [mk_step ''analyze'' ''score''],
        call_errors = [] \<rparr>]"
    by (simp_all add: example_system_facts(1))
  have 1: "runWorkflow
     (after_events example_workflows
        [CallRunWorkflow ''sentinel'' ''run-1'' None None, Resume ''run-1'' None None])
     ''no-such-workflow'' ''run-2'' None None =
     (Some (Error ''Orchestrator is already running a workflow''),
      after_events example_workflows
        [CallRunWorkflow ''sentinel'' ''run-1'' None None, Resume ''run-1'' None None])"
    using busy nc example_system_facts(2) by simp
  have 2: "runWorkflow (new_system example_workflows) ''no-such-workflow'' ''run-2'' None None =
     (Some (Error ''Workflow not found: no-such-workflow''), new_system example_workflows)"
    using unknown example_system_facts(4,5) by simp
  have 3: "fst (runWorkflow (new_system example_workflows) ''sentinel'' ''run-1'' None None) = None \<and>
   isRunning (sys_orchestrator
     (snd (runWorkflow (new_system example_workflows) ''sentinel'' ''run-1'' None None))) \<and>
   length (run_records (sys_orchestrator
     (snd (runWorkflow (new_system example_workflows) ''sentinel'' ''run-1'' None None)))) = 1 \<and>
   runs_in_progress
     (snd (runWorkflow (new_system example_workflows) ''sentinel'' ''run-1'' None None)) =
     [''run-1'']"
    using idle example_system_facts(3,5,6) by (simp add: new_system_def new_orchestrator_def)
  have 4: "sys_calls (snd (cancel_run
     (after_events example_workflows
        [CallRunWorkflow ''sentinel'' ''run-1'' None None, Resume ''run-1'' None None]) None)) =
     [\<lparr> call_runId = ''run-1'',
        call_phase = AwaitStep (mk_step ''observe'' ''watch'') [mk_step ''analyze'' ''score''],
        call_errors = [] \<rparr>] \<and>
   \<not> isRunning (sys_orchestrator (snd (cancel_run
     (after_events example_workflows
        [CallRunWorkflow ''sentinel'' ''run-1'' None None, Resume ''run-1'' None None]) None)))"
    using busy run by simp
  show ?thesis using 1 2 3 4 example_system_facts(2) by (simp add: example_system_facts(1))
qed

text \<open>
  Claim C3 as stated fails once \<open>cancel\<close> is called. The run \<open>run-1\<close> is admitted and
  awaits its agents; \<open>cancel\<close> clears the flag and leaves the call suspended, so the run
  is still in progress; the next call of \<open>runWorkflow\<close> throws nothing, creates the
  record of \<open>run-2\<close>, and two runs are in progress.
\<close>

theorem runWorkflow_admitted_after_cancel:
  "runs_in_progress (after_events example_workflows
     [CallRunWorkflow ''sentinel'' ''run-1'' None None, CallCancel None]) = [''run-1''] \<and>
   fst (runWorkflow
     (after_events example_workflows
        [CallRunWorkflow ''sentinel'' ''run-1'' None None, CallCancel None])
     ''sentinel'' ''run-2'' None None) = None \<and>
   run_records (sys_orchestrator (snd (runWorkflow
     (after_events example_workflows
        [CallRunWorkflow ''sentinel'' ''run-1'' None None, CallCancel None])
     ''sentinel'' ''run-2'' None None))) =
     [\<lparr> rr_id = ''run-1'', rr_workflowId = ''sentinel'', rr_status = RunCancelled \<rparr>,
      \<lparr> rr_id = ''run-2'', rr_workflowId = ''sentinel'', rr_status = RunRunning \<rparr>] \<and>
   runs_in_progress (snd (runWorkflow
     (after_events example_workflows
        [CallRunWorkflow ''sentinel'' ''run-1'' None None, CallCancel None])
     ''sentinel'' ''run-2'' None None)) = [''run-1'', ''run-2'']"
  by code_simp

text \<open>
  What the amended claim leaves open. The run cancelled above goes on through its steps,
  and its \<^verbatim>\<open>finally\<close> block clears the flag that the call of \<open>run-2\<close> has set, while
  \<open>run-2\<close> is in progress. An error of \<^verbatim>\<open>db.runs.create\<close> leaves the flag set with no run
  in progress. And the flag is clear, so that a call is admitted, while a call that has
  left its \<^verbatim>\<open>try\<close> block awaits its summary, its record still saying running.
\<close>

lemma cancelled_run_clears_flag_of_next_run:
  "runs_in_progress (after_events example_workflows
     [CallRunWorkflow ''sentinel'' ''run-1'' None None, CallCancel None,
      CallRunWorkflow ''sentinel'' ''run-2'' None None,
      Resume ''run-1'' None None, Resume ''run-1'' None None, Resume ''run-1'' None None]) =
     [''run-2''] \<and>
   \<not> isRunning (sys_orchestrator (after_events example_workflows
     [CallRunWorkflow ''sentinel'' ''run-1'' None None, CallCancel None,
      CallRunWorkflow ''sentinel'' ''run-2'' None None,
      Resume ''run-1'' None None, Resume ''run-1'' None None, Resume ''run-1'' None None]))"
  by code_simp

lemma create_error_leaves_flag_set:
  "runWorkflow (new_system example_workflows) ''sentinel'' ''run-1''
     (Some (Error ''SQLITE_BUSY'')) None =
     (Some (Error ''SQLITE_BUSY''),
      \<lparr> sys_orchestrator =
         \<lparr> isRunning = True, currentRunId = Some ''run-1'', workflows = example_workflows,
           run_records = [] \<rparr>,
       sys_calls = [] \<rparr>)"
  by (simp add: runWorkflow_def new_system_def new_orchestrator_def example_workflows_def)

lemma flag_clear_while_summary_awaited:
  "after_events example_workflows
     [CallRunWorkflow ''sentinel'' ''run-1'' None None,
      Resume ''run-1'' None None, Resume ''run-1'' None None, Resume ''run-1'' None None] =
     \<lparr> sys_orchestrator =
         \<lparr> isRunning = False, currentRunId = None, workflows = example_workflows,
           run_records =
             [\<lparr> rr_id = ''run-1'', rr_workflowId = ''sentinel'', rr_status = RunRunning \<rparr>] \<rparr>,
       sys_calls =
         [\<lparr> call_runId = ''run-1'', call_phase = AwaitSummary RunCompleted,
            call_errors = [] \<rparr>] \<rparr>"
  by (simp add: after_events_def new_system_def new_orchestrator_def runWorkflow_def
      resume_def resume_call_def loop_from_def leave_try_def set_run_status_def
      example_workflows_def Let_def)

end
